theory Spec2Isabelle
  imports Main "HOL-Library.Word" "HOL-Library.Multiset" "HOL-Library.Monad_Syntax"
begin

section \<open>Memory\<close>

text \<open>
  \<^verbatim>\<open>SharedString<TChar>\<close> (SharedString.cpp) is a handle on a reference-counted block
  that a process-wide table keeps unique per content. The claims are about which block a
  handle points at, about the counters and about the keys of the table, which are views
  into memory; so the model has an explicit store.

  A block is the \<^verbatim>\<open>SharedData\<close> header (lines 55-70) together with the character array
  that follows it in the same allocation. Bytes and offsets are not represented:
  \<^verbatim>\<open>GetBuffer\<close> is a pointer of its own kind, and the size of an allocation is counted
  in elements after the header. \<^verbatim>\<open>TChar\<close> is the type parameter \<open>'c\<close>, with \<open>0\<close> as
  \<^verbatim>\<open>TChar(0)\<close>; \<^verbatim>\<open>uint32_t\<close> is \<open>32 word\<close>; \<^verbatim>\<open>size_t\<close> is wider than 32 bits
  (a content can be \<open>2^32\<close> elements long), its values here are lengths of arrays that
  exist, and they are \<open>nat\<close>.
\<close>

record 'c SharedData =
  RefCount :: "32 word"
  Length :: "32 word"
  Buffer :: "'c list"

text \<open>
  A \<^verbatim>\<open>SharedData*\<close> is the address of the static \<^verbatim>\<open>EmptyBuffer\<close> (what
  \<^verbatim>\<open>GetEmpty()\<close> returns) or of a block made by \<^verbatim>\<open>new\<close>. A \<^verbatim>\<open>const TChar*\<close> points
  at the first element of an array owned by the caller (a literal, the buffer of a
  \<^verbatim>\<open>std::basic_string\<close>) or at the array of a block (\<^verbatim>\<open>GetBuffer()\<close>, \<^verbatim>\<open>CStr()\<close>). A
  \<^verbatim>\<open>std::basic_string_view\<close> is a pointer and a size: it owns nothing.
\<close>

datatype data_ptr = Static | Heap nat

datatype char_ptr = Array nat | Payload data_ptr

type_synonym string_view = "char_ptr \<times> nat"

text \<open>
  The synchronisation the code performs, in program order: taking and leaving
  \<^verbatim>\<open>Mutex\<close> (a \<^verbatim>\<open>std::lock_guard\<close>), and the atomic \<^verbatim>\<open>++RefCount\<close> and
  \<^verbatim>\<open>--RefCount\<close>.
\<close>

datatype event = Lock | Unlock | Inc data_ptr | Dec data_ptr

text \<open>
  \<open>arrays\<close>: the caller's character arrays, by address. \<open>EmptyBuffer\<close>: the static
  array of line 86 read as a \<^verbatim>\<open>SharedData\<close>. \<open>blocks\<close>: the live blocks; \<open>brk\<close>: the
  address the next \<^verbatim>\<open>new\<close> returns. \<open>Storage\<close>: the \<^verbatim>\<open>unordered_map\<close> of
  \<^verbatim>\<open>SharedStorage\<close>, each entry a key view and the block its \<^verbatim>\<open>unique_ptr\<close> owns.
  \<open>events\<close>: the synchronisation so far.
\<close>

record 'c memory =
  arrays :: "nat \<Rightarrow> 'c list"
  EmptyBuffer :: "'c SharedData"
  blocks :: "nat \<Rightarrow> 'c SharedData option"
  brk :: nat
  Storage :: "(string_view \<times> nat) list"
  events :: "event list"

text \<open>Line 86: every byte of \<^verbatim>\<open>EmptyBuffer\<close> is zero, one \<^verbatim>\<open>TChar\<close> after the header.\<close>

definition zero_filled :: "'c::zero SharedData" where
  "zero_filled = \<lparr>RefCount = 0, Length = 0, Buffer = [0]\<rparr>"

text \<open>The memory before the first use of the class: no block, an empty table.\<close>

definition start :: "(nat \<Rightarrow> 'c list) \<Rightarrow> 'c::zero memory" where
  "start arr = \<lparr>arrays = arr, EmptyBuffer = zero_filled, blocks = Map.empty, brk = 0,
     Storage = [], events = []\<rparr>"

definition GetEmpty :: data_ptr where
  "GetEmpty = Static"

text \<open>
  Reading and writing through a \<^verbatim>\<open>SharedData*\<close>. A pointer to a block that was freed
  reads \<open>None\<close>: the behaviour of the program is undefined from there on, and every
  operation below that meets \<open>None\<close> returns \<open>None\<close>.
\<close>

definition deref :: "'c memory \<Rightarrow> data_ptr \<Rightarrow> 'c SharedData option" where
  "deref m p = (case p of Static \<Rightarrow> Some (EmptyBuffer m) | Heap a \<Rightarrow> blocks m a)"

definition assign :: "data_ptr \<Rightarrow> 'c SharedData \<Rightarrow> 'c memory \<Rightarrow> 'c memory" where
  "assign p d m =
     (case p of Static \<Rightarrow> m\<lparr>EmptyBuffer := d\<rparr> | Heap a \<Rightarrow> m\<lparr>blocks := (blocks m)(a \<mapsto> d)\<rparr>)"

definition emit :: "event \<Rightarrow> 'c memory \<Rightarrow> 'c memory" where
  "emit e m = m\<lparr>events := events m @ [e]\<rparr>"

text \<open>
  The array a \<^verbatim>\<open>const TChar*\<close> points at, and the characters of a view. A view longer
  than its array reads past the end: \<open>None\<close>.
\<close>

definition array_at :: "'c memory \<Rightarrow> char_ptr \<Rightarrow> 'c list option" where
  "array_at m p = (case p of Array b \<Rightarrow> Some (arrays m b) | Payload d \<Rightarrow> map_option Buffer (deref m d))"

definition view_chars :: "'c memory \<Rightarrow> string_view \<Rightarrow> 'c list option" where
  "view_chars m v =
     (case array_at m (fst v) of
        None \<Rightarrow> None
      | Some cs \<Rightarrow> if snd v \<le> length cs then Some (take (snd v) cs) else None)"

text \<open>
  \<^verbatim>\<open>std::basic_string_view<TChar>(Str).size()\<close> (lines 111, 208) counts the elements
  before the first terminator; an array with no terminator is read past its end.
\<close>

definition strlen :: "'c::zero list \<Rightarrow> nat option" where
  "strlen cs = (if 0 \<in> set cs then Some (length (takeWhile (\<lambda>c. c \<noteq> 0) cs)) else None)"

section \<open>SharedData (lines 262-295)\<close>

text \<open>
  The constructor, run by the placement \<^verbatim>\<open>new\<close> of line 245 in a block with room for
  \<open>room\<close> elements after the header: the counter is 1, the length is the argument,
  \<^verbatim>\<open>memcpy\<close> copies \<^verbatim>\<open>StrLength\<close> elements from \<^verbatim>\<open>Str\<close> and the terminator is stored
  after them, at the index \<^verbatim>\<open>StrLength\<close>. Storing past the end of the block is
  undefined: \<open>None\<close>.
\<close>

definition new_SharedData :: "nat \<Rightarrow> char_ptr \<Rightarrow> 32 word \<Rightarrow> 'c::zero memory \<Rightarrow> 'c SharedData option" where
  "new_SharedData room Str StrLength m = do {
     cs \<leftarrow> view_chars m (Str, unat StrLength);
     if unat StrLength < room
     then Some \<lparr>RefCount = 1, Length = StrLength, Buffer = cs @ [0]\<rparr>
     else None
   }"

definition GetBuffer :: "data_ptr \<Rightarrow> char_ptr" where
  "GetBuffer this = Payload this"

definition GetLength :: "data_ptr \<Rightarrow> 'c memory \<Rightarrow> 32 word option" where
  "GetLength this m = map_option Length (deref m this)"

definition IncRefCount :: "data_ptr \<Rightarrow> 'c memory \<Rightarrow> 'c memory option" where
  "IncRefCount this m =
     (case deref m this of
        None \<Rightarrow> None
      | Some d \<Rightarrow> Some (emit (Inc this) (assign this (d\<lparr>RefCount := RefCount d + 1\<rparr>) m)))"

definition DecRefCount :: "data_ptr \<Rightarrow> 'c memory \<Rightarrow> (32 word \<times> 'c memory) option" where
  "DecRefCount this m =
     (case deref m this of
        None \<Rightarrow> None
      | Some d \<Rightarrow>
          Some (RefCount d - 1, emit (Dec this) (assign this (d\<lparr>RefCount := RefCount d - 1\<rparr>) m)))"

text \<open>
  \<^verbatim>\<open>CopyRef\<close> (line 104) calls \<^verbatim>\<open>Data->IncRefCounter()\<close>. \<^verbatim>\<open>SharedData\<close> declares no
  such member (lines 55-70 declare \<^verbatim>\<open>IncRefCount\<close>, and nothing else in the file
  declares one), so a program that instantiates \<^verbatim>\<open>CopyRef\<close> is ill-formed: the call has
  no behaviour, which is \<open>None\<close>. \<^verbatim>\<open>main\<close> never copies a handle and compiles.
\<close>

definition IncRefCounter :: "data_ptr \<Rightarrow> 'c memory \<Rightarrow> 'c memory option" where
  "IncRefCounter this m = None"

section \<open>SharedStorage (lines 230-260)\<close>

text \<open>
  The table compares keys by content. \<^verbatim>\<open>find\<close> returns the first entry whose key
  reads the characters looked for (\<open>None\<close> is \<^verbatim>\<open>end()\<close>); \<^verbatim>\<open>emplace\<close> inserts
  unless an equal key is there, in which case the \<^verbatim>\<open>unique_ptr\<close> built from the
  argument frees the block; erasing an entry destroys its \<^verbatim>\<open>unique_ptr\<close>, which frees the
  block it owns. (The block was obtained as an array of \<^verbatim>\<open>uint8_t\<close> in line 245 and is
  released by the \<^verbatim>\<open>delete\<close> of a \<^verbatim>\<open>SharedData*\<close>; the model takes that release as
  freeing the block.)
\<close>

definition find_entry :: "'c memory \<Rightarrow> 'c list \<Rightarrow> (string_view \<times> nat) option" where
  "find_entry m cs = List.find (\<lambda>e. view_chars m (fst e) = Some cs) (Storage m)"

definition emplace :: "string_view \<Rightarrow> nat \<Rightarrow> 'c memory \<Rightarrow> 'c memory option" where
  "emplace k a m =
     (case view_chars m k of
        None \<Rightarrow> None
      | Some cs \<Rightarrow>
          (case find_entry m cs of
             None \<Rightarrow> Some (m\<lparr>Storage := Storage m @ [(k, a)]\<rparr>)
           | Some e \<Rightarrow> Some (m\<lparr>blocks := (blocks m)(a := None)\<rparr>)))"

definition erase :: "string_view \<times> nat \<Rightarrow> 'c memory \<Rightarrow> 'c memory" where
  "erase e m = m\<lparr>Storage := remove1 e (Storage m), blocks := (blocks m)(snd e := None)\<rparr>"

text \<open>
  \<^verbatim>\<open>BufferSize\<close> (line 244) is \<^verbatim>\<open>sizeof(SharedData) + (Length + 1) * sizeof(TChar)\<close>,
  where \<^verbatim>\<open>Length + 1\<close> is computed in \<^verbatim>\<open>uint32_t\<close> before it is widened: the block has
  room for \<open>unat (Len + 1)\<close> elements, which is none when \<^verbatim>\<open>Length\<close> is \<open>2^32 - 1\<close>.
\<close>

definition AddString :: "char_ptr \<Rightarrow> 32 word \<Rightarrow> 'c::zero memory \<Rightarrow> (data_ptr \<times> 'c memory) option" where
  "AddString Str Len m = do {
     cs \<leftarrow> view_chars m (Str, unat Len);
     let m1 = emit Lock m;
     case find_entry m1 cs of
       Some Iter \<Rightarrow> do {
         m2 \<leftarrow> IncRefCount (Heap (snd Iter)) m1;
         Some (Heap (snd Iter), emit Unlock m2)
       }
     | None \<Rightarrow> do {
         let BufferSize = unat (Len + 1);
         d \<leftarrow> new_SharedData BufferSize Str Len m1;
         let Result = brk m1;
         let m2 = m1\<lparr>blocks := (blocks m1)(Result \<mapsto> d), brk := Suc Result\<rparr>;
         m3 \<leftarrow> emplace (Str, unat Len) Result m2;
         Some (Heap Result, emit Unlock m3)
       }
   }"

text \<open>\<^verbatim>\<open>erase(find(...))\<close> with nothing found erases \<^verbatim>\<open>end()\<close>: undefined, \<open>None\<close>.\<close>

definition RemoveString :: "data_ptr \<Rightarrow> 'c memory \<Rightarrow> 'c memory option" where
  "RemoveString Data m = do {
     (n, m1) \<leftarrow> DecRefCount Data m;
     if n = 0 then do {
       let m2 = emit Lock m1;
       len \<leftarrow> GetLength Data m2;
       cs \<leftarrow> view_chars m2 (GetBuffer Data, unat len);
       Iter \<leftarrow> find_entry m2 cs;
       Some (emit Unlock (erase Iter m2))
     } else Some m1
   }"

section \<open>SharedString (lines 101-228)\<close>

text \<open>
  A handle is its one member \<^verbatim>\<open>Data\<close>. A constructor returns the new handle, an
  assignment the new value of \<^verbatim>\<open>*this\<close>; the two move operations also return the new
  value of their argument. A \<^verbatim>\<open>std::basic_string\<close> argument is given by its
  \<^verbatim>\<open>c_str()\<close> and its \<^verbatim>\<open>size()\<close>, an array argument \<^verbatim>\<open>const TChar(&)[Size]\<close> by its
  address and \<^verbatim>\<open>Size\<close>.
\<close>

datatype SharedString = SharedString (Data: data_ptr)

definition CopyRef :: "data_ptr \<Rightarrow> 'c memory \<Rightarrow> (data_ptr \<times> 'c memory) option" where
  "CopyRef D m = do { m1 \<leftarrow> IncRefCounter D m; Some (D, m1) }"

definition GetData :: "char_ptr \<Rightarrow> 'c::zero memory \<Rightarrow> (data_ptr \<times> 'c memory) option" where
  "GetData Str m = do {
     cs \<leftarrow> array_at m Str;
     Len \<leftarrow> strlen cs;
     if Len = 0 then Some (GetEmpty, m) else AddString Str (of_nat Len) m
   }"

definition bound :: "(data_ptr \<times> 'c memory) option \<Rightarrow> (SharedString \<times> 'c memory) option" where
  "bound r = map_option (\<lambda>(D, m). (SharedString D, m)) r"

definition SharedString_default :: SharedString where
  "SharedString_default = SharedString GetEmpty"

definition SharedString_cstr :: "char_ptr \<Rightarrow> 'c::zero memory \<Rightarrow> (SharedString \<times> 'c memory) option" where
  "SharedString_cstr Str m = bound (GetData Str m)"

definition SharedString_string :: "char_ptr \<Rightarrow> nat \<Rightarrow> 'c::zero memory \<Rightarrow> (SharedString \<times> 'c memory) option" where
  "SharedString_string c_str sz m =
     bound (if sz = 0 then Some (GetEmpty, m) else AddString c_str (of_nat sz) m)"

definition SharedString_copy :: "SharedString \<Rightarrow> 'c memory \<Rightarrow> (SharedString \<times> 'c memory) option" where
  "SharedString_copy Str m =
     bound (if Data Str = GetEmpty then Some (GetEmpty, m) else CopyRef (Data Str) m)"

definition SharedString_move :: "SharedString \<Rightarrow> SharedString \<times> SharedString" where
  "SharedString_move Str = (SharedString (Data Str), SharedString GetEmpty)"

definition SharedString_literal :: "char_ptr \<Rightarrow> nat \<Rightarrow> 'c::zero memory \<Rightarrow> (SharedString \<times> 'c memory) option" where
  "SharedString_literal Str Size m =
     bound (if Size = 0 then Some (GetEmpty, m) else AddString Str (of_nat (Size - 1)) m)"

definition Clear :: "SharedString \<Rightarrow> 'c memory \<Rightarrow> 'c memory option" where
  "Clear this m = (if Data this \<noteq> GetEmpty then RemoveString (Data this) m else Some m)"

definition destroy :: "SharedString \<Rightarrow> 'c memory \<Rightarrow> 'c memory option" where
  "destroy this m = Clear this m"

definition assign_copy :: "SharedString \<Rightarrow> SharedString \<Rightarrow> 'c memory \<Rightarrow> (SharedString \<times> 'c memory) option" where
  "assign_copy this Str m =
     (if Data Str \<noteq> Data this then do {
        m1 \<leftarrow> Clear this m;
        bound (if Data Str = GetEmpty then Some (GetEmpty, m1) else CopyRef (Data Str) m1)
      } else Some (this, m))"

definition assign_move :: "SharedString \<Rightarrow> SharedString \<Rightarrow> 'c memory \<Rightarrow> (SharedString \<times> SharedString \<times> 'c memory) option" where
  "assign_move this Str m =
     (if Data Str \<noteq> Data this then do {
        m1 \<leftarrow> Clear this m;
        Some (SharedString (Data Str), SharedString GetEmpty, m1)
      } else Some (this, Str, m))"

definition assign_view :: "SharedString \<Rightarrow> string_view \<Rightarrow> 'c::zero memory \<Rightarrow> (SharedString \<times> 'c memory) option" where
  "assign_view this Str m = do {
     m1 \<leftarrow> Clear this m;
     bound (if snd Str = 0 then Some (GetEmpty, m1) else AddString (fst Str) (of_nat (snd Str)) m1)
   }"

definition assign_string :: "SharedString \<Rightarrow> char_ptr \<Rightarrow> nat \<Rightarrow> 'c::zero memory \<Rightarrow> (SharedString \<times> 'c memory) option" where
  "assign_string this c_str sz m = assign_view this (c_str, sz) m"

definition assign_cstr :: "SharedString \<Rightarrow> char_ptr \<Rightarrow> 'c::zero memory \<Rightarrow> (SharedString \<times> 'c memory) option" where
  "assign_cstr this Str m = do {
     cs \<leftarrow> array_at m Str;
     Len \<leftarrow> strlen cs;
     assign_view this (Str, Len) m
   }"

definition assign_literal :: "SharedString \<Rightarrow> char_ptr \<Rightarrow> nat \<Rightarrow> 'c::zero memory \<Rightarrow> (SharedString \<times> 'c memory) option" where
  "assign_literal this Str Size m = assign_view this (Str, Size) m"

definition CStr :: "SharedString \<Rightarrow> char_ptr" where
  "CStr this = GetBuffer (Data this)"

definition Str :: "SharedString \<Rightarrow> 'c memory \<Rightarrow> 'c list option" where
  "Str this m = do {
     len \<leftarrow> GetLength (Data this) m;
     view_chars m (GetBuffer (Data this), unat len)
   }"

section \<open>The invariant of the table\<close>

text \<open>The characters of a block: what \<^verbatim>\<open>Str()\<close> and the lookup of \<^verbatim>\<open>RemoveString\<close> read.\<close>

definition chars :: "'c SharedData \<Rightarrow> 'c list" where
  "chars d = take (unat (Length d)) (Buffer d)"

text \<open>
  An entry is sound when its key is a view over an array of the caller that reads the
  characters of the block the entry owns, and that block is its characters followed by
  the terminator, fewer than \<open>2^32 - 1\<close> of them (a block of that length cannot be
  made).
\<close>

definition key_ok :: "'c::zero memory \<Rightarrow> string_view \<times> nat \<Rightarrow> bool" where
  "key_ok m e =
     (case fst (fst e) of
        Payload p \<Rightarrow> False
      | Array b \<Rightarrow>
          (case blocks m (snd e) of
             None \<Rightarrow> False
           | Some d \<Rightarrow>
               view_chars m (fst e) = Some (chars d) \<and> Buffer d = chars d @ [0] \<and>
               unat (Length d) < 4294967295))"

text \<open>
  The static record is untouched; every entry is sound; no block is owned twice; no two
  keys read the same characters; every live block is owned by an entry and lies below
  the next fresh address.
\<close>

definition pool_inv :: "'c::zero memory \<Rightarrow> bool" where
  "pool_inv m \<longleftrightarrow>
     EmptyBuffer m = zero_filled \<and>
     list_all (key_ok m) (Storage m) \<and>
     distinct (map snd (Storage m)) \<and>
     distinct (map (\<lambda>e. view_chars m (fst e)) (Storage m)) \<and>
     (\<forall>a. blocks m a = None \<or> (a \<in> snd ` set (Storage m) \<and> a < brk m))"

section \<open>The program of the source file\<close>

text \<open>
  The arrays of the caller that \<^verbatim>\<open>main\<close> (lines 297-304) and the examples use, as
  \<^verbatim>\<open>char\<close> arrays with their terminators: \<^verbatim>\<open>"str"\<close> at the addresses 0 and 1,
  \<^verbatim>\<open>"abcd"\<close> at 2, \<^verbatim>\<open>"12345"\<close> at 3, and the empty string at 4.
\<close>

definition caller_arrays :: "nat \<Rightarrow> 8 word list" where
  "caller_arrays b =
     (if b = 0 then [115, 116, 114, 0]
      else if b = 1 then [115, 116, 114, 0]
      else if b = 2 then [97, 98, 99, 100, 0]
      else if b = 3 then [49, 50, 51, 52, 53, 0]
      else if b = 4 then [0]
      else [])"

text \<open>
  \<^verbatim>\<open>main\<close> up to its closing brace: the four handles and the memory. Its arguments
  are string literals, arrays of \<^verbatim>\<open>const char\<close>: for such an argument the overloads
  for \<^verbatim>\<open>const TChar*\<close> and for \<^verbatim>\<open>const TChar(&)[Size]\<close> convert equally well
  (the array-to-pointer conversion does not count), and overload resolution prefers the
  one that is not a template. So \<^verbatim>\<open>main\<close> calls the constructor of line 122 and the
  assignment of line 206.
\<close>

definition main :: "((SharedString \<times> SharedString \<times> SharedString \<times> SharedString) \<times> 8 word memory) option" where
  "main = do {
     (str, m1) \<leftarrow> SharedString_cstr (Array 0) (start caller_arrays);
     (str1, m2) \<leftarrow> SharedString_cstr (Array 1) m1;
     (str2, str1') \<leftarrow> Some (SharedString_move str1);
     (str3, m3) \<leftarrow> SharedString_cstr (Array 2) m2;
     (str2', m4) \<leftarrow> assign_cstr str2 (Array 3) m3;
     Some ((str, str1', str2', str3), m4)
   }"

text \<open>
  The memory after \<^verbatim>\<open>SharedString<char> str = "str"\<close> alone, and after the first two
  statements of \<^verbatim>\<open>main\<close> (two handles on the one block): the states the examples
  start from.
\<close>

definition str_block :: "32 word \<Rightarrow> 8 word SharedData" where
  "str_block n = \<lparr>RefCount = n, Length = 3, Buffer = [115, 116, 114, 0]\<rparr>"

definition one_str :: "8 word memory" where
  "one_str = \<lparr>arrays = caller_arrays, EmptyBuffer = zero_filled, blocks = [0 \<mapsto> str_block 1], brk = 1,
     Storage = [((Array 0, 3), 0)], events = [Lock, Unlock]\<rparr>"

definition two_str :: "8 word memory" where
  "two_str = \<lparr>arrays = caller_arrays, EmptyBuffer = zero_filled, blocks = [0 \<mapsto> str_block 2], brk = 1,
     Storage = [((Array 0, 3), 0)], events = [Lock, Unlock, Lock, Inc (Heap 0), Unlock]\<rparr>"

section \<open>Clients\<close>

text \<open>
  The content a handle is made from, by the overload that takes it: raw
  (\<^verbatim>\<open>const TChar*\<close>, read up to the terminator), owned (\<^verbatim>\<open>std::basic_string\<close>, its
  \<^verbatim>\<open>c_str()\<close> and \<^verbatim>\<open>size()\<close>), or what the spec calls fixed-size literal content
  (\<^verbatim>\<open>const TChar(&)[Size]\<close>, the array without its last element). Overload resolution
  selects the array overloads for an array of non-const elements, such as
  \<^verbatim>\<open>char buf[6] = "12345"\<close>; a string literal is raw content (see \<open>main\<close>).
  \<open>content\<close> is the sequence of characters the caller passes.
\<close>

datatype source = Raw char_ptr | Owned char_ptr nat | Literal char_ptr nat

fun construct :: "source \<Rightarrow> 'c::zero memory \<Rightarrow> (SharedString \<times> 'c memory) option" where
  "construct (Raw p) m = SharedString_cstr p m"
| "construct (Owned p n) m = SharedString_string p n m"
| "construct (Literal p Size) m = SharedString_literal p Size m"

fun assign_from :: "SharedString \<Rightarrow> source \<Rightarrow> 'c::zero memory \<Rightarrow> (SharedString \<times> 'c memory) option" where
  "assign_from this (Raw p) m = assign_cstr this p m"
| "assign_from this (Owned p n) m = assign_string this p n m"
| "assign_from this (Literal p Size) m = assign_literal this p Size m"

fun content :: "'c::zero memory \<Rightarrow> source \<Rightarrow> 'c list option" where
  "content m (Raw p) = do { cs \<leftarrow> array_at m p; n \<leftarrow> strlen cs; Some (take n cs) }"
| "content m (Owned p n) = view_chars m (p, n)"
| "content m (Literal p Size) = (if Size = 0 then None else view_chars m (p, Size - 1))"

text \<open>A source in memory of the caller: its pointer is the address of an array.\<close>

fun from_caller :: "source \<Rightarrow> bool" where
  "from_caller (Raw p) = (case p of Array b \<Rightarrow> True | Payload d \<Rightarrow> False)"
| "from_caller (Owned p n) = (case p of Array b \<Rightarrow> True | Payload d \<Rightarrow> False)"
| "from_caller (Literal p Size) = (case p of Array b \<Rightarrow> True | Payload d \<Rightarrow> False)"

text \<open>
  A client holds a multiset of live handles and calls the public operations on them.
  \<open>perform\<close> runs one call: the constructors add a handle, the destructor removes one,
  an assignment replaces the value of its target, a move also that of its argument.
\<close>

datatype call =
    New_default
  | New source
  | New_copy SharedString
  | New_move SharedString
  | Delete SharedString
  | Set_copy SharedString SharedString
  | Set_move SharedString SharedString
  | Set_view SharedString string_view
  | Set SharedString source

fun perform :: "call \<Rightarrow> SharedString multiset \<times> 'c::zero memory \<Rightarrow> (SharedString multiset \<times> 'c memory) option" where
  "perform New_default (H, m) = Some (add_mset SharedString_default H, m)"
| "perform (New src) (H, m) = do { (h, m') \<leftarrow> construct src m; Some (add_mset h H, m') }"
| "perform (New_copy s) (H, m) = do { (h, m') \<leftarrow> SharedString_copy s m; Some (add_mset h H, m') }"
| "perform (New_move s) (H, m) =
     Some (add_mset (fst (SharedString_move s)) (add_mset (snd (SharedString_move s)) (H - {#s#})), m)"
| "perform (Delete h) (H, m) = do { m' \<leftarrow> destroy h m; Some (H - {#h#}, m') }"
| "perform (Set_copy t s) (H, m) = do { (t', m') \<leftarrow> assign_copy t s m; Some (add_mset t' (H - {#t#}), m') }"
| "perform (Set_move t s) (H, m) = do {
     (t', s', m') \<leftarrow> assign_move t s m;
     Some (add_mset t' (add_mset s' (H - {#t#} - {#s#})), m') }"
| "perform (Set_view t v) (H, m) = do { (t', m') \<leftarrow> assign_view t v m; Some (add_mset t' (H - {#t#}), m') }"
| "perform (Set t src) (H, m) = do { (t', m') \<leftarrow> assign_from t src m; Some (add_mset t' (H - {#t#}), m') }"

text \<open>The number of live handles bound to the block at an address.\<close>

definition refs :: "SharedString multiset \<Rightarrow> nat \<Rightarrow> nat" where
  "refs H a = count H (SharedString (Heap a))"

text \<open>
  A call is legal when the handles it names are live (an assignment names two distinct
  objects: \<^verbatim>\<open>x = x\<close> changes nothing), its content lies in an array of the caller
  and not in a block of the table (the class accepts a pointer into a block, such as
  \<^verbatim>\<open>CStr()\<close> of a handle, as well; the runs below leave that out), and a call that may
  increment a counter finds no block referenced by \<open>2^32 - 1\<close> handles already
  (\<open>room\<close>): the counter is a \<^verbatim>\<open>uint32_t\<close>.
\<close>

definition room :: "SharedString multiset \<Rightarrow> bool" where
  "room H \<longleftrightarrow> (\<forall>h \<in># H. count H h < 4294967295)"

fun legal :: "call \<Rightarrow> SharedString multiset \<Rightarrow> bool" where
  "legal New_default H = True"
| "legal (New src) H = (from_caller src \<and> room H)"
| "legal (New_copy s) H = (s \<in># H)"
| "legal (New_move s) H = (s \<in># H)"
| "legal (Delete h) H = (h \<in># H)"
| "legal (Set_copy t s) H = ({#t, s#} \<subseteq># H)"
| "legal (Set_move t s) H = ({#t, s#} \<subseteq># H)"
| "legal (Set_view t v) H = (t \<in># H \<and> from_caller (Owned (fst v) (snd v)) \<and> room H)"
| "legal (Set t src) H = (t \<in># H \<and> from_caller src \<and> room H)"

text \<open>
  The caller stores new characters in one of its own arrays, or frees it (the array
  becomes empty: every view of it that is not empty then reads past its end).
\<close>

definition caller_writes :: "nat \<Rightarrow> 'c list \<Rightarrow> 'c memory \<Rightarrow> 'c memory" where
  "caller_writes b cs m = m\<lparr>arrays := (arrays m)(b := cs)\<rparr>"

text \<open>
  No key of the table is a view of the array \<open>b\<close>. A key views the array that was the
  argument when its block was made (line 247) and stays until the block is freed, so
  this says: no live block was made from \<open>b\<close>.
\<close>

definition free_of_keys :: "'c memory \<Rightarrow> nat \<Rightarrow> bool" where
  "free_of_keys m b = list_all (\<lambda>e. fst (fst e) \<noteq> Array b) (Storage m)"

text \<open>
  The states a client reaches from the first use of the class, where \<open>arr\<close> are its
  arrays: by legal calls that return, and by changing or freeing an array of its own
  while no key of the table views it. Nothing in the class stops a caller from changing
  an array that a key views; the runs that do are not among these, and claim C5 shows
  what follows in them.
\<close>

inductive reachable :: "(nat \<Rightarrow> 'c list) \<Rightarrow> SharedString multiset \<times> 'c::zero memory \<Rightarrow> bool"
  for arr :: "nat \<Rightarrow> 'c list" where
  first: "reachable arr ({#}, start arr)"
| step: "reachable arr (H, m) \<Longrightarrow> legal c H \<Longrightarrow> perform c (H, m) = Some w \<Longrightarrow> reachable arr w"
| change: "reachable arr (H, m) \<Longrightarrow> free_of_keys m b \<Longrightarrow> reachable arr (H, caller_writes b cs m)"

text \<open>The same call, \<open>n\<close> times in a row.\<close>

primrec repeat :: "nat \<Rightarrow> call \<Rightarrow> SharedString multiset \<times> 'c::zero memory \<Rightarrow> (SharedString multiset \<times> 'c memory) option" where
  "repeat 0 c w = Some w"
| "repeat (Suc n) c w = do { w' \<leftarrow> perform c w; repeat n c w' }"

text \<open>
  Every live block is referenced by as many handles as its counter says, and by at least
  one; no handle is bound to a freed block.
\<close>

definition world_inv :: "SharedString multiset \<Rightarrow> 'c::zero memory \<Rightarrow> bool" where
  "world_inv H m \<longleftrightarrow>
     pool_inv m \<and>
     (\<forall>a. case blocks m a of
             None \<Rightarrow> refs H a = 0
           | Some d \<Rightarrow> 0 < refs H a \<and> unat (RefCount d) = refs H a)"

text \<open>
  What the claims about counting compare at an address: the number of live handles bound
  to the block, and the counter of the block (\<open>None\<close> when it is freed).
\<close>

definition tally :: "nat \<Rightarrow> SharedString multiset \<times> 'c memory \<Rightarrow> nat \<times> 32 word option" where
  "tally a w = (refs (fst w) a, map_option RefCount (blocks (snd w) a))"

text \<open>A handle is usable when it is bound to the static record or to a live block.\<close>

definition live :: "'c memory \<Rightarrow> SharedString \<Rightarrow> bool" where
  "live m h = (case Data h of Static \<Rightarrow> True | Heap a \<Rightarrow> blocks m a \<noteq> None)"


text \<open>
  The buffer of a \<^verbatim>\<open>std::string\<close> of \<open>2^32\<close> characters \<^verbatim>\<open>'x'\<close>, at every address: the
  shortest content whose \<^verbatim>\<open>size()\<close> does not fit the \<^verbatim>\<open>uint32_t\<close> of lines 112 and 129.
\<close>

definition huge :: "nat \<Rightarrow> 8 word list" where
  "huge b = replicate 4294967296 120 @ [0]"

text \<open>The buffer of a \<^verbatim>\<open>std::string\<close> of \<open>2^32 - 1\<close> characters \<^verbatim>\<open>'x'\<close>, at every address.\<close>

definition nearly_huge :: "nat \<Rightarrow> 8 word list" where
  "nearly_huge b = replicate 4294967295 120 @ [0]"



section \<open>Basic facts\<close>

lemmas run_defs = AddString_def RemoveString_def view_chars_def
  find_entry_def emplace_def erase_def new_SharedData_def GetBuffer_def GetLength_def
  IncRefCount_def DecRefCount_def IncRefCounter_def CopyRef_def GetData_def bound_def
  SharedString_literal_def SharedString_default_def SharedString_cstr_def
  SharedString_string_def SharedString_copy_def SharedString_move_def destroy_def
  assign_copy_def assign_move_def assign_string_def assign_cstr_def Clear_def
  assign_view_def assign_literal_def Str_def start_def zero_filled_def GetEmpty_def
  strlen_def emit_def caller_arrays_def

lemma unat_inc: "unat (w :: 32 word) < 4294967295 \<Longrightarrow> unat (w + 1) = Suc (unat w)"
  by (simp add: unat_word_ariths)

lemma unat_dec: "0 < unat (w :: 32 word) \<Longrightarrow> unat (w - 1) = unat w - 1"
  by (metis unat_minus_one unat_eq_zero less_numeral_extra(3))

lemma deref_simps [simp]:
  "deref m Static = Some (EmptyBuffer m)" "deref m (Heap a) = blocks m a"
  by (simp_all add: deref_def)

lemma assign_simps [simp]:
  "assign Static d m = m\<lparr>EmptyBuffer := d\<rparr>"
  "assign (Heap a) d m = m\<lparr>blocks := (blocks m)(a \<mapsto> d)\<rparr>"
  by (simp_all add: assign_def)

lemma array_at_simps [simp]:
  "array_at m (Array b) = Some (arrays m b)"
  "array_at m (Payload p) = map_option Buffer (deref m p)"
  by (simp_all add: array_at_def)

lemma view_chars_Array:
  "view_chars m (Array b, n) = (if n \<le> length (arrays m b) then Some (take n (arrays m b)) else None)"
  by (simp add: view_chars_def)

lemma view_chars_Array_cong:
  "arrays m' = arrays m \<Longrightarrow> view_chars m' (Array b, n) = view_chars m (Array b, n)"
  by (simp add: view_chars_Array)

lemma key_ok_Array: "key_ok m e \<Longrightarrow> \<exists>b n. fst e = (Array b, n)"
  by (cases e; cases "fst (fst e)") (auto simp: key_ok_def)

lemma key_ok_block:
  "key_ok m e \<Longrightarrow> \<exists>d. blocks m (snd e) = Some d \<and> view_chars m (fst e) = Some (chars d) \<and>
     Buffer d = chars d @ [0] \<and> unat (Length d) < 4294967295"
  by (auto simp: key_ok_def split: char_ptr.splits option.splits)

lemma wf_length: "Buffer d = chars d @ [0] \<Longrightarrow> length (chars d) = unat (Length d) \<and> length (Buffer d) = Suc (unat (Length d))"
proof -
  assume a: "Buffer d = chars d @ [0]"
  then have l: "length (Buffer d) = Suc (length (chars d))"
    by (metis length_append_singleton)
  have "length (chars d) = min (unat (Length d)) (length (Buffer d))"
    by (simp add: chars_def min.commute)
  with l show ?thesis by (simp add: min_def split: if_splits)
qed

lemma find_entry_Some:
  "find_entry m cs = Some e \<Longrightarrow> e \<in> set (Storage m) \<and> view_chars m (fst e) = Some cs"
  by (auto simp: find_entry_def find_Some_iff)

lemma find_entry_None:
  "find_entry m cs = None \<longleftrightarrow> (\<forall>e \<in> set (Storage m). view_chars m (fst e) \<noteq> Some cs)"
  unfolding find_entry_def find_None_iff by blast

lemma find_entry_cong:
  assumes "Storage m' = Storage m" "arrays m' = arrays m" "list_all (key_ok m) (Storage m)"
  shows "find_entry m' cs = find_entry m cs"
proof -
  have "\<And>e. e \<in> set (Storage m) \<Longrightarrow> view_chars m' (fst e) = view_chars m (fst e)"
  proof -
    fix e assume "e \<in> set (Storage m)"
    then have "key_ok m e" using assms(3) by (simp add: list_all_iff)
    then obtain b n where "fst e = (Array b, n)" using key_ok_Array by blast
    then show "view_chars m' (fst e) = view_chars m (fst e)"
      using assms(2) by (simp add: view_chars_Array)
  qed
  then show ?thesis
    unfolding find_entry_def assms(1) by (intro find_cong) auto
qed


lemma key_view_cong:
  assumes "key_ok m e" "arrays m' = arrays m"
  shows "view_chars m' (fst e) = view_chars m (fst e)"
proof -
  obtain b n where "fst e = (Array b, n)" using assms(1) key_ok_Array by blast
  then show ?thesis using assms(2) by (simp add: view_chars_Array)
qed

lemma view_chars_emit [simp]: "view_chars (emit ev m) v = view_chars m v"
proof -
  have "array_at (emit ev m) p = array_at m p" for p
    by (cases p) (auto simp: emit_def deref_def split: data_ptr.splits)
  then show ?thesis by (simp add: view_chars_def)
qed

lemma find_entry_emit [simp]: "find_entry (emit ev m) cs = find_entry m cs"
  by (simp add: find_entry_def) (simp add: emit_def)

lemma pool_inv_entry: "pool_inv m \<Longrightarrow> e \<in> set (Storage m) \<Longrightarrow> key_ok m e"
  by (simp add: pool_inv_def list_all_iff)

lemma pool_inv_live:
  "pool_inv m \<Longrightarrow> blocks m a = Some d \<Longrightarrow> a < brk m \<and> (\<exists>k. (k, a) \<in> set (Storage m))"
  unfolding pool_inv_def by (metis (no_types, lifting) imageE option.distinct(1) prod.collapse)

lemma pool_inv_fresh: "pool_inv m \<Longrightarrow> blocks m (brk m) = None"
  unfolding pool_inv_def by (metis less_irrefl)

lemma pool_inv_wf: "pool_inv m \<Longrightarrow> blocks m a = Some d \<Longrightarrow> Buffer d = chars d @ [0]"
  using pool_inv_live [of m a d] pool_inv_entry key_ok_block by fastforce

lemma pool_inv_len: "pool_inv m \<Longrightarrow> blocks m a = Some d \<Longrightarrow> unat (Length d) < 4294967295"
  using pool_inv_live [of m a d] pool_inv_entry key_ok_block by fastforce

lemma pool_inv_key:
  "pool_inv m \<Longrightarrow> (k, a) \<in> set (Storage m) \<Longrightarrow> blocks m a = Some d \<Longrightarrow> view_chars m k = Some (chars d)"
  using pool_inv_entry [of m "(k, a)"] key_ok_block [of m "(k, a)"] by auto

lemma pool_inv_find:
  assumes "pool_inv m" "blocks m a = Some d"
  shows "\<exists>k. find_entry m (chars d) = Some (k, a)"
proof -
  obtain k where k: "(k, a) \<in> set (Storage m)" using pool_inv_live [OF assms] by blast
  have v: "view_chars m k = Some (chars d)" using pool_inv_key [OF assms(1) k assms(2)] .
  then have "\<not> (\<forall>e \<in> set (Storage m). view_chars m (fst e) \<noteq> Some (chars d))"
    using k by force
  then have "find_entry m (chars d) \<noteq> None" by (simp only: find_entry_None) simp
  then obtain e where e: "find_entry m (chars d) = Some e" by blast
  then have e': "e \<in> set (Storage m)" "view_chars m (fst e) = Some (chars d)"
    using find_entry_Some by blast+
  have "inj_on (\<lambda>e. view_chars m (fst e)) (set (Storage m))"
    using assms(1) by (simp add: pool_inv_def distinct_map)
  moreover have "view_chars m (fst e) = view_chars m (fst (k, a))" using e' v by simp
  ultimately have "e = (k, a)" using e'(1) k by (rule inj_onD)
  then show ?thesis using e by blast
qed

lemma pool_inv_find_block:
  assumes "pool_inv m" "find_entry m cs = Some e"
  shows "\<exists>d. blocks m (snd e) = Some d \<and> chars d = cs \<and> Buffer d = cs @ [0]"
  using find_entry_Some [OF assms(2)] pool_inv_entry [OF assms(1), of e] key_ok_block [of m e]
  by auto

lemma AddString_hit:
  assumes "view_chars m (p, unat Len) = Some cs" "find_entry m cs = Some e"
    "blocks m (snd e) = Some d"
  shows "AddString p Len m = Some (Heap (snd e),
    m\<lparr>blocks := (blocks m)(snd e \<mapsto> d\<lparr>RefCount := RefCount d + 1\<rparr>),
      events := events m @ [Lock, Inc (Heap (snd e)), Unlock]\<rparr>)"
  using assms
  by (simp add: AddString_def IncRefCount_def Let_def) (simp add: emit_def)

lemma AddString_miss:
  assumes "pool_inv m" "view_chars m (Array b, unat Len) = Some cs" "find_entry m cs = None"
    "unat Len < 4294967295"
  shows "AddString (Array b) Len m = Some (Heap (brk m),
    m\<lparr>blocks := (blocks m)(brk m \<mapsto> \<lparr>RefCount = 1, Length = Len, Buffer = cs @ [0]\<rparr>),
      brk := Suc (brk m), Storage := Storage m @ [((Array b, unat Len), brk m)],
      events := events m @ [Lock, Unlock]\<rparr>)"
proof -
  let ?m1 = "emit Lock m"
  let ?d = "\<lparr>RefCount = 1, Length = Len, Buffer = cs @ [0]\<rparr>"
  let ?m2 = "?m1\<lparr>blocks := (blocks ?m1)(brk ?m1 \<mapsto> ?d), brk := Suc (brk ?m1)\<rparr>"
  have n: "new_SharedData (unat (Len + 1)) (Array b) Len ?m1 = Some ?d"
    using assms(2,4) by (simp add: new_SharedData_def unat_inc)
  have v2: "view_chars ?m2 (Array b, unat Len) = Some cs"
    using assms(2) by (simp add: view_chars_Array emit_def split: if_splits)
  have "find_entry ?m2 cs = find_entry m cs"
    using assms(1) by (intro find_entry_cong) (simp_all add: emit_def pool_inv_def)
  then have f2: "find_entry ?m2 cs = None" using assms(3) by simp
  have e: "emplace (Array b, unat Len) (brk ?m1) ?m2 = Some (?m2\<lparr>Storage := Storage ?m2 @ [((Array b, unat Len), brk ?m1)]\<rparr>)"
    unfolding emplace_def using v2 f2 by simp
  show ?thesis
    unfolding AddString_def using assms(2,3) n e
    by (simp add: Let_def) (simp add: emit_def)
qed

lemma RemoveString_keep:
  assumes "blocks m a = Some d" "RefCount d \<noteq> 1"
  shows "RemoveString (Heap a) m = Some (m\<lparr>blocks := (blocks m)(a \<mapsto> d\<lparr>RefCount := RefCount d - 1\<rparr>),
      events := events m @ [Dec (Heap a)]\<rparr>)"
  using assms by (simp add: RemoveString_def DecRefCount_def emit_def)

lemma RemoveString_last:
  assumes "pool_inv m" "blocks m a = Some d" "RefCount d = 1" "find_entry m (chars d) = Some e"
  shows "RemoveString (Heap a) m = Some (m\<lparr>Storage := remove1 e (Storage m),
      blocks := (blocks m)(snd e := None), events := events m @ [Dec (Heap a), Lock, Unlock]\<rparr>)"
proof -
  let ?d = "d\<lparr>RefCount := 0\<rparr>"
  let ?m1 = "emit (Dec (Heap a)) (assign (Heap a) ?d m)"
  let ?m2 = "emit Lock ?m1"
  have dec: "DecRefCount (Heap a) m = Some (0, ?m1)"
    using assms(2,3) by (simp add: DecRefCount_def)
  have len: "GetLength (Heap a) ?m2 = Some (Length d)"
    by (simp add: GetLength_def emit_def)
  have wf: "Buffer d = chars d @ [0]" using pool_inv_wf [OF assms(1,2)] .
  have v: "view_chars ?m2 (GetBuffer (Heap a), unat (Length d)) = Some (chars d)"
    using wf_length [OF wf]
    by (simp add: GetBuffer_def) (simp add: view_chars_def chars_def)
  have "find_entry (assign (Heap a) ?d m) (chars d) = find_entry m (chars d)"
    using assms(1) by (intro find_entry_cong) (simp_all add: pool_inv_def)
  then have f: "find_entry ?m2 (chars d) = Some e" using assms(4) by simp
  obtain k where "find_entry m (chars d) = Some (k, a)" using pool_inv_find [OF assms(1,2)] by blast
  then have ea: "snd e = a" using assms(4) by simp
  show ?thesis
    unfolding RemoveString_def using dec len v f
    by (simp add: Let_def) (simp add: emit_def erase_def ea)
qed


lemma pool_inv_start: "pool_inv (start arr)"
  by (simp add: pool_inv_def start_def)

lemma key_ok_cong:
  assumes "key_ok m e" "arrays m' = arrays m" "blocks m' (snd e) = Some d'"
    "blocks m (snd e) = Some d" "Length d' = Length d" "Buffer d' = Buffer d"
  shows "key_ok m' e"
proof -
  have "chars d' = chars d" using assms(5,6) by (simp add: chars_def)
  moreover have "view_chars m' (fst e) = view_chars m (fst e)"
    using key_view_cong [OF assms(1,2)] .
  ultimately show ?thesis
    using assms(1,3,4,5,6) by (auto simp: key_ok_def split: char_ptr.splits)
qed

lemma pool_inv_refcount:
  assumes "pool_inv m" "blocks m a = Some d"
  shows "pool_inv (m\<lparr>blocks := (blocks m)(a \<mapsto> d\<lparr>RefCount := r\<rparr>), events := ev\<rparr>)"
    (is "pool_inv ?m'")
proof -
  have ok: "key_ok ?m' e" if e: "e \<in> set (Storage m)" for e
  proof -
    have k: "key_ok m e" using pool_inv_entry [OF assms(1) e] .
    then obtain d0 where d0: "blocks m (snd e) = Some d0" using key_ok_block by blast
    show ?thesis
    proof (cases "snd e = a")
      case True
      then show ?thesis using d0 assms(2)
        by (intro key_ok_cong [OF k, where d' = "d\<lparr>RefCount := r\<rparr>" and d = d0]) auto
    next
      case False
      then show ?thesis using d0 by (intro key_ok_cong [OF k, where d' = d0 and d = d0]) auto
    qed
  qed
  have vs: "map (\<lambda>e. view_chars ?m' (fst e)) (Storage m) = map (\<lambda>e. view_chars m (fst e)) (Storage m)"
    using pool_inv_entry [OF assms(1)] by (intro map_cong refl key_view_cong) auto
  have c1: "EmptyBuffer ?m' = zero_filled" using assms(1) by (simp add: pool_inv_def)
  have c2: "list_all (key_ok ?m') (Storage ?m')" using ok by (simp add: list_all_iff)
  have c3: "distinct (map snd (Storage ?m'))" using assms(1) by (simp add: pool_inv_def)
  have "distinct (map (\<lambda>e. view_chars ?m' (fst e)) (Storage m))"
    unfolding vs using assms(1) by (simp add: pool_inv_def)
  then have c4: "distinct (map (\<lambda>e. view_chars ?m' (fst e)) (Storage ?m'))" by simp
  have c5: "\<forall>x. blocks ?m' x = None \<or> (x \<in> snd ` set (Storage ?m') \<and> x < brk ?m')"
  proof
    fix x
    have "blocks m x = None \<or> (x \<in> snd ` set (Storage m) \<and> x < brk m)"
      using assms(1) by (simp add: pool_inv_def)
    moreover have "a \<in> snd ` set (Storage m) \<and> a < brk m"
      using pool_inv_live [OF assms] by force
    ultimately show "blocks ?m' x = None \<or> (x \<in> snd ` set (Storage ?m') \<and> x < brk ?m')"
      by (cases "x = a") simp_all
  qed
  show ?thesis unfolding pool_inv_def using c1 c2 c3 c4 c5 by blast
qed

lemma pool_inv_insert:
  assumes "pool_inv m" "view_chars m (Array b, n) = Some cs" "find_entry m cs = None"
    "unat Len = n" "n < 4294967295"
  shows "pool_inv (m\<lparr>blocks := (blocks m)(brk m \<mapsto> \<lparr>RefCount = r, Length = Len, Buffer = cs @ [0]\<rparr>),
      brk := Suc (brk m), Storage := Storage m @ [((Array b, n), brk m)], events := ev\<rparr>)"
    (is "pool_inv ?m'")
proof -
  let ?d = "\<lparr>RefCount = r, Length = Len, Buffer = cs @ [0]\<rparr>"
  have fresh: "blocks m (brk m) = None" using pool_inv_fresh [OF assms(1)] .
  have le: "n \<le> length (arrays m b)" and tk: "take n (arrays m b) = cs"
    using assms(2) by (auto simp: view_chars_Array split: if_splits)
  have len: "length cs = n" using le tk by auto
  have cd: "chars ?d = cs" using len assms(4) by (simp add: chars_def)
  have old: "snd e \<noteq> brk m" if "e \<in> set (Storage m)" for e
    using pool_inv_entry [OF assms(1) that] key_ok_block [of m e] fresh by auto
  have ok: "key_ok ?m' e" if e: "e \<in> set (Storage m)" for e
  proof -
    have k: "key_ok m e" using pool_inv_entry [OF assms(1) e] .
    then obtain d0 where d0: "blocks m (snd e) = Some d0" using key_ok_block by blast
    show ?thesis using old [OF e] d0 by (intro key_ok_cong [OF k, where d' = d0 and d = d0]) auto
  qed
  have new: "key_ok ?m' ((Array b, n), brk m)"
    using le tk cd assms(4,5) by (simp add: key_ok_def view_chars_Array)
  have vs: "map (\<lambda>e. view_chars ?m' (fst e)) (Storage m) = map (\<lambda>e. view_chars m (fst e)) (Storage m)"
    using pool_inv_entry [OF assms(1)] by (intro map_cong refl key_view_cong) auto
  have nv: "view_chars ?m' (Array b, n) = Some cs" using le tk by (simp add: view_chars_Array)
  have notin: "Some cs \<notin> set (map (\<lambda>e. view_chars m (fst e)) (Storage m))"
    using assms(3) by (auto simp: find_entry_None)
  have c1: "EmptyBuffer ?m' = zero_filled" using assms(1) by (simp add: pool_inv_def)
  have c2: "list_all (key_ok ?m') (Storage ?m')" using ok new by (simp add: list_all_iff)
  have "distinct (map snd (Storage m))" using assms(1) by (simp add: pool_inv_def)
  moreover have "brk m \<notin> snd ` set (Storage m)"
  proof
    assume "brk m \<in> snd ` set (Storage m)"
    then obtain e where "e \<in> set (Storage m)" "snd e = brk m" by (auto simp: image_iff)
    then show False using old by blast
  qed
  ultimately have c3: "distinct (map snd (Storage ?m'))" by simp
  have "distinct (map (\<lambda>e. view_chars m (fst e)) (Storage m))"
    using assms(1) by (simp add: pool_inv_def)
  then have "distinct (map (\<lambda>e. view_chars ?m' (fst e)) (Storage m) @ [view_chars ?m' (Array b, n)])"
    unfolding vs nv using notin by simp
  then have c4: "distinct (map (\<lambda>e. view_chars ?m' (fst e)) (Storage ?m'))" by simp
  have c5: "\<forall>x. blocks ?m' x = None \<or> (x \<in> snd ` set (Storage ?m') \<and> x < brk ?m')"
  proof
    fix x
    have "blocks m x = None \<or> (x \<in> snd ` set (Storage m) \<and> x < brk m)"
      using assms(1) by (simp add: pool_inv_def)
    then show "blocks ?m' x = None \<or> (x \<in> snd ` set (Storage ?m') \<and> x < brk ?m')"
      by (cases "x = brk m") auto
  qed
  show ?thesis unfolding pool_inv_def using c1 c2 c3 c4 c5 by blast
qed

lemma pool_inv_erase:
  assumes "pool_inv m" "e \<in> set (Storage m)"
  shows "pool_inv (m\<lparr>Storage := remove1 e (Storage m), blocks := (blocks m)(snd e := None), events := ev\<rparr>)"
    (is "pool_inv ?m'")
proof -
  have ds: "distinct (map snd (Storage m))" using assms(1) by (simp add: pool_inv_def)
  then have dist: "distinct (Storage m)" and inj: "inj_on snd (set (Storage m))"
    by (simp_all add: distinct_map)
  have set': "set (remove1 e (Storage m)) = set (Storage m) - {e}" using dist by simp
  have other: "snd x \<noteq> snd e" if "x \<in> set (Storage m)" "x \<noteq> e" for x
    using inj_onD [OF inj _ that(1) assms(2)] that(2) by blast
  have ok: "key_ok ?m' x" if x: "x \<in> set (remove1 e (Storage m))" for x
  proof -
    have xs: "x \<in> set (Storage m)" "x \<noteq> e" using x set' by auto
    have k: "key_ok m x" using pool_inv_entry [OF assms(1) xs(1)] .
    then obtain d0 where d0: "blocks m (snd x) = Some d0" using key_ok_block by blast
    show ?thesis using other [OF xs] d0 by (intro key_ok_cong [OF k, where d' = d0 and d = d0]) auto
  qed
  have vs: "map (\<lambda>x. view_chars ?m' (fst x)) (remove1 e (Storage m)) =
      map (\<lambda>x. view_chars m (fst x)) (remove1 e (Storage m))"
  proof (intro map_cong refl key_view_cong)
    fix x assume "x \<in> set (remove1 e (Storage m))"
    then have "x \<in> set (Storage m)" using set' by simp
    then show "key_ok m x" using pool_inv_entry [OF assms(1)] by blast
  qed simp
  have c1: "EmptyBuffer ?m' = zero_filled" using assms(1) by (simp add: pool_inv_def)
  have c2: "list_all (key_ok ?m') (Storage ?m')" using ok by (simp add: list_all_iff)
  have "inj_on snd (set (remove1 e (Storage m)))" using inj set' by (simp add: inj_on_diff)
  then have c3: "distinct (map snd (Storage ?m'))" using dist by (simp add: distinct_map)
  have "distinct (map (\<lambda>x. view_chars m (fst x)) (Storage m))"
    using assms(1) by (simp add: pool_inv_def)
  then have "inj_on (\<lambda>x. view_chars m (fst x)) (set (Storage m))" by (simp add: distinct_map)
  then have "inj_on (\<lambda>x. view_chars m (fst x)) (set (remove1 e (Storage m)))"
    using set' by (simp add: inj_on_diff)
  then have "distinct (map (\<lambda>x. view_chars m (fst x)) (remove1 e (Storage m)))"
    using dist by (simp add: distinct_map)
  then have "distinct (map (\<lambda>x. view_chars ?m' (fst x)) (remove1 e (Storage m)))"
    unfolding vs .
  then have c4: "distinct (map (\<lambda>e. view_chars ?m' (fst e)) (Storage ?m'))" by simp
  have c5: "\<forall>x. blocks ?m' x = None \<or> (x \<in> snd ` set (Storage ?m') \<and> x < brk ?m')"
  proof
    fix x
    have h: "blocks m x = None \<or> (x \<in> snd ` set (Storage m) \<and> x < brk m)"
      using assms(1) by (simp add: pool_inv_def)
    show "blocks ?m' x = None \<or> (x \<in> snd ` set (Storage ?m') \<and> x < brk ?m')"
    proof (cases "x = snd e \<or> blocks m x = None")
      case True then show ?thesis by auto
    next
      case False
      then obtain y where y: "y \<in> set (Storage m)" "snd y = x" "x < brk m" using h by auto
      then have "y \<noteq> e" using False by auto
      then have "y \<in> set (remove1 e (Storage m))" using y(1) set' by simp
      then have "x \<in> snd ` set (remove1 e (Storage m))" using y(2) by force
      then show ?thesis using y(3) by simp
    qed
  qed
  show ?thesis unfolding pool_inv_def using c1 c2 c3 c4 c5 by blast
qed

lemma RemoveString_result:
  assumes "pool_inv m" "blocks m a = Some d"
  shows "\<exists>m'. RemoveString (Heap a) m = Some m' \<and> pool_inv m' \<and> arrays m' = arrays m \<and>
      brk m' = brk m \<and> (\<forall>x. x \<noteq> a \<longrightarrow> blocks m' x = blocks m x) \<and>
      (if RefCount d = 1
       then blocks m' a = None \<and> find_entry m' (chars d) = None \<and>
            (\<exists>k. find_entry m (chars d) = Some (k, a) \<and> Storage m' = remove1 (k, a) (Storage m)) \<and>
            events m' = events m @ [Dec (Heap a), Lock, Unlock]
       else blocks m' a = Some (d\<lparr>RefCount := RefCount d - 1\<rparr>) \<and> Storage m' = Storage m \<and>
            events m' = events m @ [Dec (Heap a)])"
proof (cases "RefCount d = 1")
  case False
  let ?m' = "m\<lparr>blocks := (blocks m)(a \<mapsto> d\<lparr>RefCount := RefCount d - 1\<rparr>),
      events := events m @ [Dec (Heap a)]\<rparr>"
  have "RemoveString (Heap a) m = Some ?m'" using RemoveString_keep [OF assms(2) False] .
  moreover have "pool_inv ?m'" using pool_inv_refcount [OF assms] .
  ultimately show ?thesis using False by simp
next
  case True
  obtain k where k: "find_entry m (chars d) = Some (k, a)" using pool_inv_find [OF assms] by blast
  let ?m' = "m\<lparr>Storage := remove1 (k, a) (Storage m), blocks := (blocks m)(snd (k, a) := None),
      events := events m @ [Dec (Heap a), Lock, Unlock]\<rparr>"
  have r: "RemoveString (Heap a) m = Some ?m'" using RemoveString_last [OF assms True k] .
  have mem: "(k, a) \<in> set (Storage m)" and kv: "view_chars m k = Some (chars d)"
    using find_entry_Some [OF k] by simp_all
  have p: "pool_inv ?m'" using pool_inv_erase [OF assms(1) mem] .
  have dist: "distinct (Storage m)" using assms(1) by (simp add: pool_inv_def distinct_map)
  have inj: "inj_on (\<lambda>e. view_chars m (fst e)) (set (Storage m))"
    using assms(1) by (simp add: pool_inv_def distinct_map)
  have "view_chars ?m' (fst e) \<noteq> Some (chars d)" if e: "e \<in> set (Storage ?m')" for e
  proof -
    have es: "e \<in> set (Storage m)" "e \<noteq> (k, a)" using e dist by auto
    have "view_chars ?m' (fst e) = view_chars m (fst e)"
      using pool_inv_entry [OF assms(1) es(1)] by (intro key_view_cong) auto
    moreover have "view_chars m (fst e) \<noteq> view_chars m (fst (k, a))"
      using inj_onD [OF inj _ es(1) mem] es(2) by blast
    ultimately show ?thesis using kv by simp
  qed
  then have f: "find_entry ?m' (chars d) = None" by (simp only: find_entry_None) blast
  show ?thesis using r p f k True by simp
qed

lemma AddString_overflow:
  assumes "view_chars m (p, unat Len) = Some cs" "find_entry m cs = None"
    "\<not> unat Len < 4294967295"
  shows "AddString p Len m = None"
proof -
  have "unat Len < 4294967296" using unsigned_less [of Len] by simp
  then have "unat Len = 4294967295" using assms(3) by simp
  then have "Len = 4294967295" by (simp add: word_unat_eq_iff)
  then show ?thesis using assms(1,2) by (simp add: AddString_def new_SharedData_def Let_def)
qed

lemma AddString_result:
  assumes "pool_inv m" "view_chars m (Array b, unat Len) = Some cs"
    "find_entry m cs = None \<Longrightarrow> unat Len < 4294967295"
  shows "\<exists>a m' d k. AddString (Array b) Len m = Some (Heap a, m') \<and> pool_inv m' \<and>
      arrays m' = arrays m \<and> blocks m' a = Some d \<and> chars d = cs \<and> Length d = Len \<and>
      find_entry m' cs = Some (k, a) \<and> (\<forall>x. x \<noteq> a \<longrightarrow> blocks m' x = blocks m x) \<and>
      (case find_entry m cs of
         Some e \<Rightarrow> snd e = a \<and> brk m' = brk m \<and> Storage m' = Storage m \<and>
           (\<exists>d0. blocks m a = Some d0 \<and> d = d0\<lparr>RefCount := RefCount d0 + 1\<rparr>) \<and>
           events m' = events m @ [Lock, Inc (Heap a), Unlock]
       | None \<Rightarrow> a = brk m \<and> blocks m a = None \<and> brk m' = Suc (brk m) \<and>
           Storage m' = Storage m @ [((Array b, unat Len), a)] \<and>
           d = \<lparr>RefCount = 1, Length = Len, Buffer = cs @ [0]\<rparr> \<and>
           events m' = events m @ [Lock, Unlock])"
proof (cases "find_entry m cs")
  case None
  let ?d = "\<lparr>RefCount = 1, Length = Len, Buffer = cs @ [0]\<rparr>"
  let ?k = "(Array b, unat Len)"
  let ?m' = "m\<lparr>blocks := (blocks m)(brk m \<mapsto> ?d),
      brk := Suc (brk m), Storage := Storage m @ [(?k, brk m)],
      events := events m @ [Lock, Unlock]\<rparr>"
  have r: "AddString (Array b) Len m = Some (Heap (brk m), ?m')"
    using AddString_miss [OF assms(1,2) None assms(3) [OF None]] .
  have p: "pool_inv ?m'" using pool_inv_insert [OF assms(1,2) None refl assms(3) [OF None]] .
  have len: "length cs = unat Len" using assms(2) by (auto simp: view_chars_Array split: if_splits)
  then have cd: "chars ?d = cs" by (simp add: chars_def)
  have bl: "blocks ?m' (brk m) = Some ?d" by simp
  obtain k where f: "find_entry ?m' (chars ?d) = Some (k, brk m)"
    using pool_inv_find [OF p bl] by blast
  show ?thesis using r p cd f None pool_inv_fresh [OF assms(1)] by simp
next
  case (Some e)
  obtain d0 where d0: "blocks m (snd e) = Some d0" "chars d0 = cs" "Buffer d0 = cs @ [0]"
    using pool_inv_find_block [OF assms(1) Some] by blast
  let ?d = "d0\<lparr>RefCount := RefCount d0 + 1\<rparr>"
  let ?m' = "m\<lparr>blocks := (blocks m)(snd e \<mapsto> ?d),
      events := events m @ [Lock, Inc (Heap (snd e)), Unlock]\<rparr>"
  have r: "AddString (Array b) Len m = Some (Heap (snd e), ?m')"
    using AddString_hit [OF assms(2) Some d0(1)] .
  have p: "pool_inv ?m'" using pool_inv_refcount [OF assms(1) d0(1)] .
  have cd: "chars ?d = cs" using d0(2) by (simp add: chars_def)
  have bl: "blocks ?m' (snd e) = Some ?d" by simp
  obtain k where f: "find_entry ?m' (chars ?d) = Some (k, snd e)"
    using pool_inv_find [OF p bl] by blast
  have "length cs = unat Len" using assms(2) by (auto simp: view_chars_Array split: if_splits)
  moreover have "length (chars d0) = unat (Length d0)" using wf_length [of d0] d0 by simp
  ultimately have "Length d0 = Len" using d0(2) by (simp add: word_unat_eq_iff)
  then show ?thesis using r p cd f Some d0 by simp
qed

section \<open>Counting handles\<close>

lemma refs_add [simp]:
  "refs (add_mset h H) a = (if h = SharedString (Heap a) then Suc (refs H a) else refs H a)"
  by (simp add: refs_def)

lemma refs_remove [simp]:
  "refs (H - {#h#}) a = (if h = SharedString (Heap a) then refs H a - 1 else refs H a)"
  by (simp add: refs_def)

lemma world_inv_pool: "world_inv H m \<Longrightarrow> pool_inv m"
  by (simp add: world_inv_def)

lemma world_inv_block:
  "world_inv H m \<Longrightarrow> blocks m a = Some d \<Longrightarrow> 0 < refs H a \<and> unat (RefCount d) = refs H a"
  unfolding world_inv_def by (metis (mono_tags, lifting) option.simps(5))

lemma world_inv_free: "world_inv H m \<Longrightarrow> blocks m a = None \<Longrightarrow> refs H a = 0"
  unfolding world_inv_def by (metis (mono_tags, lifting) option.simps(4))

lemma world_inv_live:
  assumes "world_inv H m" "SharedString (Heap a) \<in># H"
  shows "\<exists>d. blocks m a = Some d"
proof (cases "blocks m a")
  case None
  then have "refs H a = 0" using world_inv_free [OF assms(1)] by blast
  then show ?thesis using assms(2) by (simp add: refs_def count_eq_zero_iff)
qed simp

lemma world_invI:
  assumes "pool_inv m"
    and "\<And>a. blocks m a = None \<Longrightarrow> refs H a = 0"
    and "\<And>a d. blocks m a = Some d \<Longrightarrow> 0 < refs H a \<and> unat (RefCount d) = refs H a"
  shows "world_inv H m"
  unfolding world_inv_def using assms by (auto split: option.splits)

lemma world_inv_cong:
  assumes "world_inv H m" "\<And>a. refs H' a = refs H a"
  shows "world_inv H' m"
proof (rule world_invI)
  show "pool_inv m" using assms(1) by (rule world_inv_pool)
  show "refs H' a = 0" if "blocks m a = None" for a
    using world_inv_free [OF assms(1) that] by (simp add: assms(2))
  show "0 < refs H' a \<and> unat (RefCount d) = refs H' a" if "blocks m a = Some d" for a d
    using world_inv_block [OF assms(1) that] by (simp add: assms(2))
qed

lemma world_inv_start: "world_inv {#} (start arr)"
proof (rule world_invI [OF pool_inv_start])
  show "refs {#} a = 0" for a by (simp add: refs_def)
  show "0 < refs {#} a \<and> unat (RefCount d) = refs {#} a"
    if "blocks (start arr) a = Some d" for a and d :: "'a SharedData"
    using that by (simp add: start_def)
qed

lemma room_remove: "room H \<Longrightarrow> room (H - {#t#})"
  unfolding room_def by (metis count_diff diff_le_self in_diffD order_le_less_trans)

lemma room_refs: "room H \<Longrightarrow> 0 < refs H a \<Longrightarrow> refs H a < 4294967295"
  unfolding room_def refs_def by (simp add: count_greater_zero_iff)

lemma AddString_Some_view:
  "AddString p Len m = Some r \<Longrightarrow> \<exists>cs. view_chars m (p, unat Len) = Some cs"
  by (cases "view_chars m (p, unat Len)") (simp_all add: AddString_def)

lemma AddString_world:
  assumes "world_inv H m" "room H" "AddString (Array b) Len m = Some (p, m')"
  shows "world_inv (add_mset (SharedString p) H) m' \<and> arrays m' = arrays m"
proof -
  obtain cs where cs: "view_chars m (Array b, unat Len) = Some cs"
    using AddString_Some_view [OF assms(3)] by blast
  have bound: "unat Len < 4294967295" if "find_entry m cs = None"
  proof (rule ccontr)
    assume "\<not> unat Len < 4294967295"
    from AddString_overflow [OF cs that this] assms(3) show False by simp
  qed
  obtain a m1 d k where r: "AddString (Array b) Len m = Some (Heap a, m1)" "pool_inv m1"
      "arrays m1 = arrays m" "blocks m1 a = Some d"
      "\<forall>x. x \<noteq> a \<longrightarrow> blocks m1 x = blocks m x"
      and c: "case find_entry m cs of
         Some e \<Rightarrow> snd e = a \<and> brk m1 = brk m \<and> Storage m1 = Storage m \<and>
           (\<exists>d0. blocks m a = Some d0 \<and> d = d0\<lparr>RefCount := RefCount d0 + 1\<rparr>) \<and>
           events m1 = events m @ [Lock, Inc (Heap a), Unlock]
       | None \<Rightarrow> a = brk m \<and> blocks m a = None \<and> brk m1 = Suc (brk m) \<and>
           Storage m1 = Storage m @ [((Array b, unat Len), a)] \<and>
           d = \<lparr>RefCount = 1, Length = Len, Buffer = cs @ [0]\<rparr> \<and>
           events m1 = events m @ [Lock, Unlock]"
    using AddString_result [OF world_inv_pool [OF assms(1)] cs bound] by blast
  have pm: "p = Heap a" "m' = m1" using r(1) assms(3) by simp_all
  have da: "0 < Suc (refs H a) \<and> unat (RefCount d) = Suc (refs H a)"
  proof (cases "find_entry m cs")
    case None
    have "blocks m a = None" "RefCount d = 1" using c None by auto
    then show ?thesis using world_inv_free [OF assms(1)] by simp
  next
    case (Some e)
    obtain d0 where d0: "blocks m a = Some d0" "d = d0\<lparr>RefCount := RefCount d0 + 1\<rparr>"
      using c Some by auto
    have "0 < refs H a" "unat (RefCount d0) = refs H a"
      using world_inv_block [OF assms(1) d0(1)] by simp_all
    then show ?thesis using room_refs [OF assms(2)] d0(2) by (simp add: unat_inc)
  qed
  have "world_inv (add_mset (SharedString (Heap a)) H) m1"
  proof (rule world_invI [OF r(2)])
    fix x assume n: "blocks m1 x = None"
    then have "x \<noteq> a" using r(4) by auto
    then show "refs (add_mset (SharedString (Heap a)) H) x = 0"
      using r(5) n world_inv_free [OF assms(1), of x] by simp
  next
    fix x dx assume s: "blocks m1 x = Some dx"
    show "0 < refs (add_mset (SharedString (Heap a)) H) x \<and>
        unat (RefCount dx) = refs (add_mset (SharedString (Heap a)) H) x"
    proof (cases "x = a")
      case True then show ?thesis using da s r(4) by simp
    next
      case False
      then show ?thesis using r(5) s world_inv_block [OF assms(1), of x dx] by simp
    qed
  qed
  then show ?thesis using pm r(3) by simp
qed

lemma RemoveString_world:
  assumes "world_inv H m" "SharedString (Heap a) \<in># H"
  shows "\<exists>m'. RemoveString (Heap a) m = Some m' \<and>
      world_inv (H - {#SharedString (Heap a)#}) m' \<and> arrays m' = arrays m"
proof -
  obtain d where d: "blocks m a = Some d" using world_inv_live [OF assms] by blast
  have cnt: "0 < refs H a" "unat (RefCount d) = refs H a"
    using world_inv_block [OF assms(1) d] by simp_all
  obtain m' where all: "RemoveString (Heap a) m = Some m' \<and> pool_inv m' \<and> arrays m' = arrays m \<and>
      brk m' = brk m \<and> (\<forall>x. x \<noteq> a \<longrightarrow> blocks m' x = blocks m x) \<and>
      (if RefCount d = 1
       then blocks m' a = None \<and> find_entry m' (chars d) = None \<and>
            (\<exists>k. find_entry m (chars d) = Some (k, a) \<and> Storage m' = remove1 (k, a) (Storage m)) \<and>
            events m' = events m @ [Dec (Heap a), Lock, Unlock]
       else blocks m' a = Some (d\<lparr>RefCount := RefCount d - 1\<rparr>) \<and> Storage m' = Storage m \<and>
            events m' = events m @ [Dec (Heap a)])"
    using RemoveString_result [OF world_inv_pool [OF assms(1)] d] by blast
  then have r: "RemoveString (Heap a) m = Some m'" "pool_inv m'" "arrays m' = arrays m"
      "\<forall>x. x \<noteq> a \<longrightarrow> blocks m' x = blocks m x" by simp_all
  have c: "if RefCount d = 1 then blocks m' a = None
        else blocks m' a = Some (d\<lparr>RefCount := RefCount d - 1\<rparr>)"
    using all by (simp split: if_splits)
  let ?H = "H - {#SharedString (Heap a)#}"
  have "world_inv ?H m'"
  proof (rule world_invI [OF r(2)])
    fix x assume n: "blocks m' x = None"
    show "refs ?H x = 0"
    proof (cases "x = a")
      case True
      then have "RefCount d = 1" using c n by (auto split: if_splits)
      then show ?thesis using cnt True by simp
    next
      case False
      then show ?thesis using r(4) n world_inv_free [OF assms(1), of x] by simp
    qed
  next
    fix x dx assume s: "blocks m' x = Some dx"
    show "0 < refs ?H x \<and> unat (RefCount dx) = refs ?H x"
    proof (cases "x = a")
      case True
      then have ne: "RefCount d \<noteq> 1" and dx: "dx = d\<lparr>RefCount := RefCount d - 1\<rparr>"
        using c s by (auto split: if_splits)
      have "unat (RefCount d) \<noteq> 1" using ne by (metis unat_1 word_unat_eq_iff)
      then have "1 < refs H a" using cnt by simp
      then show ?thesis using cnt dx True by (simp add: unat_dec)
    next
      case False
      then show ?thesis using r(4) s world_inv_block [OF assms(1), of x dx] by simp
    qed
  qed
  then show ?thesis using r by blast
qed

section \<open>The public operations keep the invariant\<close>

lemma handle_cases:
  obtains "h = SharedString Static" | a where "h = SharedString (Heap a)"
  by (cases h; cases "Data h") auto

lemma Clear_world:
  assumes "world_inv H m" "t \<in># H"
  shows "\<exists>m'. Clear t m = Some m' \<and> world_inv (H - {#t#}) m' \<and> arrays m' = arrays m"
proof (cases t rule: handle_cases)
  case 1
  have "world_inv (H - {#t#}) m" using assms(1) by (rule world_inv_cong) (simp add: 1)
  then show ?thesis using 1 by (simp add: Clear_def GetEmpty_def)
next
  case (2 a)
  then show ?thesis using RemoveString_world [OF assms(1), of a] assms(2)
    by (simp add: Clear_def GetEmpty_def)
qed

lemma construct_cases:
  assumes "from_caller src" "construct src m = Some (h, m')"
  shows "(h = SharedString Static \<and> m' = m) \<or>
    (\<exists>b Len p. AddString (Array b) Len m = Some (p, m') \<and> h = SharedString p)"
proof (cases src)
  case (Raw p)
  then obtain b where b: "p = Array b" using assms(1) by (cases p) auto
  show ?thesis using assms(2) Raw b
    by (auto simp: SharedString_cstr_def GetData_def bound_def GetEmpty_def bind_eq_Some_conv
        split: if_splits)
next
  case (Owned p n)
  then obtain b where b: "p = Array b" using assms(1) by (cases p) auto
  show ?thesis using assms(2) Owned b
    by (auto simp: SharedString_string_def bound_def GetEmpty_def split: if_splits)
next
  case (Literal p n)
  then obtain b where b: "p = Array b" using assms(1) by (cases p) auto
  show ?thesis using assms(2) Literal b
    by (auto simp: SharedString_literal_def bound_def GetEmpty_def split: if_splits)
qed

lemma world_inv_add_static:
  "world_inv H m \<Longrightarrow> world_inv (add_mset (SharedString Static) H) m"
  by (erule world_inv_cong) simp

lemma construct_world:
  assumes "world_inv H m" "room H" "from_caller src" "construct src m = Some (h, m')"
  shows "world_inv (add_mset h H) m' \<and> arrays m' = arrays m"
  using construct_cases [OF assms(3,4)] AddString_world [OF assms(1,2)]
    world_inv_add_static [OF assms(1)] by auto

lemma assign_view_world:
  assumes "world_inv H m" "t \<in># H" "room H" "assign_view t (Array b, n) m = Some (t', m')"
  shows "world_inv (add_mset t' (H - {#t#})) m' \<and> arrays m' = arrays m"
proof -
  obtain m1 where m1: "Clear t m = Some m1" "world_inv (H - {#t#}) m1" "arrays m1 = arrays m"
    using Clear_world [OF assms(1,2)] by blast
  have r: "room (H - {#t#})" using room_remove [OF assms(3)] .
  show ?thesis
  proof (cases "n = 0")
    case True
    then have "t' = SharedString Static" "m' = m1"
      using assms(4) m1(1) by (auto simp: assign_view_def bound_def GetEmpty_def)
    then show ?thesis using world_inv_add_static [OF m1(2)] m1(3) by simp
  next
    case False
    then obtain p where "AddString (Array b) (of_nat n) m1 = Some (p, m')" "t' = SharedString p"
      using assms(4) m1(1) by (auto simp: assign_view_def bound_def)
    then show ?thesis using AddString_world [OF m1(2) r] m1(3) by auto
  qed
qed

lemma assign_from_world:
  assumes "world_inv H m" "t \<in># H" "room H" "from_caller src" "assign_from t src m = Some (t', m')"
  shows "world_inv (add_mset t' (H - {#t#})) m' \<and> arrays m' = arrays m"
proof (cases src)
  case (Raw p)
  then obtain b where b: "p = Array b" using assms(4) by (cases p) auto
  then obtain n where "assign_view t (Array b, n) m = Some (t', m')"
    using assms(5) Raw by (auto simp: assign_cstr_def bind_eq_Some_conv)
  then show ?thesis using assign_view_world [OF assms(1,2,3)] by blast
next
  case (Owned p n)
  then obtain b where b: "p = Array b" using assms(4) by (cases p) auto
  then show ?thesis using assign_view_world [OF assms(1,2,3), of b n] assms(5) Owned
    by (simp add: assign_string_def)
next
  case (Literal p n)
  then obtain b where b: "p = Array b" using assms(4) by (cases p) auto
  then show ?thesis using assign_view_world [OF assms(1,2,3), of b n] assms(5) Literal
    by (simp add: assign_literal_def)
qed

lemma copy_Some:
  assumes "SharedString_copy s m = Some (h, m')"
  shows "s = SharedString Static \<and> h = SharedString Static \<and> m' = m"
  using assms
  by (cases s rule: handle_cases)
    (simp_all add: SharedString_copy_def GetEmpty_def CopyRef_def IncRefCounter_def bound_def)

lemma copy_world:
  assumes "world_inv H m" "SharedString_copy s m = Some (h, m')"
  shows "world_inv (add_mset h H) m' \<and> arrays m' = arrays m"
  using copy_Some [OF assms(2)] world_inv_add_static [OF assms(1)] by simp

lemma assign_copy_world:
  assumes "world_inv H m" "{#t, s#} \<subseteq># H" "assign_copy t s m = Some (t', m')"
  shows "world_inv (add_mset t' (H - {#t#})) m' \<and> arrays m' = arrays m"
proof (cases "s = t")
  case True
  have "t \<in># H" using assms(2) by (simp add: insert_subset_eq_iff)
  then have "add_mset t (H - {#t#}) = H" by simp
  then show ?thesis using True assms(1,3) by (simp add: assign_copy_def)
next
  case False
  then have ne: "Data s \<noteq> Data t" by (cases s; cases t) simp
  have t: "t \<in># H" using assms(2) by (meson insert_subset_eq_iff)
  obtain m1 where m1: "Clear t m = Some m1" "world_inv (H - {#t#}) m1" "arrays m1 = arrays m"
    using Clear_world [OF assms(1) t] by blast
  have "SharedString_copy s m1 = Some (t', m')"
    using assms(3) ne m1(1) by (simp add: assign_copy_def SharedString_copy_def)
  then show ?thesis using copy_world [OF m1(2)] m1(3) by simp
qed

lemma assign_move_world:
  assumes "world_inv H m" "{#t, s#} \<subseteq># H"
  shows "\<exists>t' s' m'. assign_move t s m = Some (t', s', m') \<and>
      world_inv (add_mset t' (add_mset s' (H - {#t#} - {#s#}))) m' \<and> arrays m' = arrays m"
proof (cases "s = t")
  case True
  have "count {#t, t#} t \<le> count H t" using assms(2) True by (intro mset_subset_eq_count) simp
  then have "2 \<le> count H t" by simp
  then have "add_mset t (add_mset t (H - {#t#} - {#t#})) = H"
    by (intro multiset_eqI) auto
  then show ?thesis using True assms(1) by (simp add: assign_move_def)
next
  case False
  then have ne: "Data s \<noteq> Data t" by (cases s; cases t) simp
  have t: "t \<in># H" using assms(2) by (meson insert_subset_eq_iff)
  have s: "s \<in># H - {#t#}" using assms(2) by (simp add: insert_subset_eq_iff)
  obtain m1 where m1: "Clear t m = Some m1" "world_inv (H - {#t#}) m1" "arrays m1 = arrays m"
    using Clear_world [OF assms(1) t] by blast
  have eq: "add_mset s (H - {#t#} - {#s#}) = H - {#t#}" using insert_DiffM [OF s] .
  have "add_mset (SharedString (Data s)) (add_mset (SharedString GetEmpty) (H - {#t#} - {#s#})) =
      add_mset s (add_mset (SharedString Static) (H - {#t#} - {#s#}))"
    by (simp only: GetEmpty_def SharedString.collapse)
  also have "\<dots> = add_mset (SharedString Static) (add_mset s (H - {#t#} - {#s#}))"
    by (rule add_mset_commute)
  also have "\<dots> = add_mset (SharedString Static) (H - {#t#})" by (simp only: eq)
  finally have "world_inv (add_mset (SharedString (Data s)) (add_mset (SharedString GetEmpty) (H - {#t#} - {#s#}))) m1"
    using world_inv_add_static [OF m1(2)] by (simp only:)
  then show ?thesis using ne m1 by (simp add: assign_move_def)
qed

lemma move_world:
  assumes "world_inv H m" "s \<in># H"
  shows "world_inv (add_mset (fst (SharedString_move s)) (add_mset (snd (SharedString_move s)) (H - {#s#}))) m"
proof -
  have "add_mset (fst (SharedString_move s)) (add_mset (snd (SharedString_move s)) (H - {#s#})) =
      add_mset s (add_mset (SharedString Static) (H - {#s#}))"
    by (simp only: SharedString_move_def fst_conv snd_conv GetEmpty_def SharedString.collapse)
  also have "\<dots> = add_mset (SharedString Static) (add_mset s (H - {#s#}))"
    by (rule add_mset_commute)
  also have "\<dots> = add_mset (SharedString Static) H" by (simp only: insert_DiffM [OF assms(2)])
  finally show ?thesis using world_inv_add_static [OF assms(1)] by (simp only:)
qed

lemma perform_world:
  assumes "world_inv H m" "legal c H" "perform c (H, m) = Some (H', m')"
  shows "world_inv H' m' \<and> arrays m' = arrays m"
proof (cases c)
  case New_default
  then show ?thesis using assms(3) world_inv_add_static [OF assms(1)]
    by (auto simp: SharedString_default_def GetEmpty_def)
next
  case (New src)
  then obtain h where "construct src m = Some (h, m')" "H' = add_mset h H"
    using assms(3) by (auto simp: bind_eq_Some_conv)
  then show ?thesis using construct_world [OF assms(1)] assms(2) New by auto
next
  case (New_copy s)
  then obtain h where h: "SharedString_copy s m = Some (h, m')" "H' = add_mset h H"
    using assms(3) by (auto simp: bind_eq_Some_conv)
  show ?thesis using copy_world [OF assms(1) h(1)] h(2) by simp
next
  case (New_move s)
  then show ?thesis using move_world [OF assms(1), of s] assms(2,3) by auto
next
  case (Delete h)
  then obtain m1 where "Clear h m = Some m1" "world_inv (H - {#h#}) m1" "arrays m1 = arrays m"
    using Clear_world [OF assms(1), of h] assms(2) by auto
  then show ?thesis using assms(3) Delete by (auto simp: destroy_def)
next
  case (Set_copy t s)
  then obtain t' where t': "assign_copy t s m = Some (t', m')" "H' = add_mset t' (H - {#t#})"
    using assms(3) by (auto simp: bind_eq_Some_conv)
  have "{#t, s#} \<subseteq># H" using assms(2) Set_copy by simp
  then show ?thesis using assign_copy_world [OF assms(1) _ t'(1)] t'(2) by simp
next
  case (Set_move t s)
  then obtain t' s' m1 where "assign_move t s m = Some (t', s', m1)"
      "world_inv (add_mset t' (add_mset s' (H - {#t#} - {#s#}))) m1" "arrays m1 = arrays m"
    using assign_move_world [OF assms(1), of t s] assms(2) by auto
  then show ?thesis using assms(3) Set_move by auto
next
  case (Set_view t v)
  obtain p n where v: "v = (p, n)" by (cases v)
  then obtain b where b: "p = Array b" using assms(2) Set_view by (cases p) auto
  obtain t' where "assign_view t (Array b, n) m = Some (t', m')" "H' = add_mset t' (H - {#t#})"
    using assms(3) Set_view v b by (auto simp: bind_eq_Some_conv)
  then show ?thesis using assign_view_world [OF assms(1)] assms(2) Set_view by auto
next
  case (Set t src)
  then obtain t' where "assign_from t src m = Some (t', m')" "H' = add_mset t' (H - {#t#})"
    using assms(3) by (auto simp: bind_eq_Some_conv)
  then show ?thesis using assign_from_world [OF assms(1)] assms(2) Set by auto
qed

lemma pool_inv_write:
  assumes "pool_inv m" "free_of_keys m b"
  shows "pool_inv (caller_writes b cs m)" (is "pool_inv ?m'")
proof -
  have vw: "view_chars ?m' (fst e) = view_chars m (fst e)" if e: "e \<in> set (Storage m)" for e
  proof -
    obtain b' n where k: "fst e = (Array b', n)"
      using key_ok_Array [OF pool_inv_entry [OF assms(1) e]] by blast
    have "fst (fst e) \<noteq> Array b" using assms(2) e by (simp add: free_of_keys_def list_all_iff)
    then have "b' \<noteq> b" using k by simp
    then show ?thesis using k by (simp add: view_chars_Array caller_writes_def)
  qed
  have ok: "key_ok ?m' e" if e: "e \<in> set (Storage m)" for e
  proof -
    have "key_ok m e" using pool_inv_entry [OF assms(1) e] .
    moreover have "blocks ?m' = blocks m" by (simp add: caller_writes_def)
    ultimately show ?thesis using vw [OF e]
      by (auto simp: key_ok_def split: char_ptr.splits option.splits)
  qed
  have vs: "map (\<lambda>e. view_chars ?m' (fst e)) (Storage m) = map (\<lambda>e. view_chars m (fst e)) (Storage m)"
    using vw by (intro map_cong refl) auto
  have st: "Storage ?m' = Storage m" "blocks ?m' = blocks m" "brk ?m' = brk m"
    "EmptyBuffer ?m' = EmptyBuffer m"
    by (simp_all add: caller_writes_def)
  have c1: "EmptyBuffer ?m' = zero_filled" using assms(1) st by (simp add: pool_inv_def)
  have c2: "list_all (key_ok ?m') (Storage ?m')" using ok st by (simp add: list_all_iff)
  have c3: "distinct (map snd (Storage ?m'))" using assms(1) st by (simp add: pool_inv_def)
  have "distinct (map (\<lambda>e. view_chars ?m' (fst e)) (Storage m))"
    unfolding vs using assms(1) by (simp add: pool_inv_def)
  then have c4: "distinct (map (\<lambda>e. view_chars ?m' (fst e)) (Storage ?m'))" using st by simp
  have c5: "\<forall>x. blocks ?m' x = None \<or> (x \<in> snd ` set (Storage ?m') \<and> x < brk ?m')"
    using assms(1) st by (simp add: pool_inv_def)
  show ?thesis unfolding pool_inv_def using c1 c2 c3 c4 c5 by blast
qed

lemma world_inv_write:
  assumes "world_inv H m" "free_of_keys m b"
  shows "world_inv H (caller_writes b cs m)"
proof (rule world_invI)
  show "pool_inv (caller_writes b cs m)"
    using pool_inv_write [OF world_inv_pool [OF assms(1)] assms(2)] .
  show "refs H a = 0" if "blocks (caller_writes b cs m) a = None" for a
    using world_inv_free [OF assms(1), of a] that by (simp add: caller_writes_def)
  show "0 < refs H a \<and> unat (RefCount d) = refs H a"
    if "blocks (caller_writes b cs m) a = Some d" for a d
    using world_inv_block [OF assms(1), of a d] that by (simp add: caller_writes_def)
qed

lemma reachable_inv: "reachable arr w \<Longrightarrow> world_inv (fst w) (snd w)"
proof (induction rule: reachable.induct)
  case first
  show ?case using world_inv_start [of arr] by simp
next
  case (step H m c w)
  then show ?case using perform_world [of H m c "fst w" "snd w"] by simp
next
  case (change H m b cs)
  then show ?case using world_inv_write by simp
qed

section \<open>Content\<close>

lemma strlen_Some: "strlen cs = Some n \<Longrightarrow> n \<le> length cs"
  by (auto simp: strlen_def length_takeWhile_le split: if_splits)

lemma view_chars_length: "view_chars m (p, n) = Some cs \<Longrightarrow> length cs = n"
  by (auto simp: view_chars_def split: option.splits if_splits)

lemma view_chars_prefix:
  "view_chars m (p, n) = Some cs \<Longrightarrow> k \<le> n \<Longrightarrow> view_chars m (p, k) = Some (take k cs)"
  by (auto simp: view_chars_def min_def split: option.splits if_splits)

lemma unat_of_nat_le: "unat (of_nat n :: 32 word) \<le> n"
  by (simp add: unat_of_nat)

lemma construct_nonempty:
  assumes "from_caller src" "content m src = Some C" "C \<noteq> []"
  shows "\<exists>b. view_chars m (Array b, length C) = Some C \<and>
      construct src m = bound (AddString (Array b) (of_nat (length C)) m)"
proof (cases src)
  case (Raw p)
  then obtain b where b: "p = Array b" using assms(1) by (cases p) auto
  obtain n where n: "strlen (arrays m b) = Some n" "C = take n (arrays m b)"
    using assms(2) Raw b by (auto simp: bind_eq_Some_conv)
  have le: "n \<le> length (arrays m b)" using strlen_Some [OF n(1)] .
  then have len: "length C = n" using n(2) by simp
  then have "n \<noteq> 0" using assms(3) by auto
  then show ?thesis using Raw b n le len
    by (intro exI [of _ b]) (simp add: SharedString_cstr_def GetData_def view_chars_Array)
next
  case (Owned p n)
  then obtain b where b: "p = Array b" using assms(1) by (cases p) auto
  have v: "view_chars m (Array b, n) = Some C" using assms(2) Owned b by simp
  have len: "length C = n" using view_chars_length [OF v] .
  then have "n \<noteq> 0" using assms(3) by auto
  then show ?thesis using Owned b v len
    by (intro exI [of _ b]) (simp add: SharedString_string_def)
next
  case (Literal p n)
  then obtain b where b: "p = Array b" using assms(1) by (cases p) auto
  have v: "n \<noteq> 0" "view_chars m (Array b, n - 1) = Some C"
    using assms(2) Literal b by (auto split: if_splits)
  have len: "length C = n - 1" using view_chars_length [OF v(2)] .
  then show ?thesis using Literal b v len
    by (intro exI [of _ b]) (simp add: SharedString_literal_def)
qed


lemma bound_Some [simp]: "bound (Some (p, m)) = Some (SharedString p, m)"
  by (simp add: bound_def)

lemma Str_block:
  assumes "blocks m a = Some d" "Buffer d = chars d @ [0]"
  shows "Str (SharedString (Heap a)) m = Some (chars d)"
  using assms wf_length [OF assms(2)]
  by (simp add: Str_def GetLength_def GetBuffer_def view_chars_def chars_def)


lemma construct_truncated:
  assumes "from_caller src" "content m src = Some C" "C \<noteq> []"
  shows "\<exists>b. view_chars m (Array b, unat (of_nat (length C) :: 32 word)) =
        Some (take (unat (of_nat (length C) :: 32 word)) C) \<and>
      construct src m = bound (AddString (Array b) (of_nat (length C)) m)"
proof -
  obtain b where b: "view_chars m (Array b, length C) = Some C"
      "construct src m = bound (AddString (Array b) (of_nat (length C)) m)"
    using construct_nonempty [OF assms] by blast
  show ?thesis using view_chars_prefix [OF b(1) unat_of_nat_le] b(2) by blast
qed

lemma pool_inv_one_str: "pool_inv one_str"
  by (simp add: pool_inv_def one_str_def key_ok_def view_chars_Array caller_arrays_def chars_def str_block_def)

lemma construct_fresh:
  assumes "pool_inv m" "from_caller src" "content m src = Some (chars d)" "chars d \<noteq> []"
    "Buffer d = chars d @ [0]" "find_entry m (chars d) = None" "unat (Length d) < 4294967295"
  shows "blocks m (brk m) = None \<and>
    (\<exists>m'. construct src m = Some (SharedString (Heap (brk m)), m') \<and>
       blocks m' (brk m) = Some \<lparr>RefCount = 1, Length = Length d, Buffer = Buffer d\<rparr>)"
proof -
  have len: "length (chars d) = unat (Length d)" using wf_length [OF assms(5)] by simp
  then have L: "(of_nat (length (chars d)) :: 32 word) = Length d" by simp
  obtain b where b: "view_chars m (Array b, length (chars d)) = Some (chars d)"
      "construct src m = bound (AddString (Array b) (of_nat (length (chars d))) m)"
    using construct_nonempty [OF assms(2,3,4)] by blast
  have v: "view_chars m (Array b, unat (Length d)) = Some (chars d)" using b(1) len by simp
  have "AddString (Array b) (Length d) m = Some (Heap (brk m),
    m\<lparr>blocks := (blocks m)(brk m \<mapsto> \<lparr>RefCount = 1, Length = Length d, Buffer = chars d @ [0]\<rparr>),
      brk := Suc (brk m), Storage := Storage m @ [((Array b, unat (Length d)), brk m)],
      events := events m @ [Lock, Unlock]\<rparr>)"
    using AddString_miss [OF assms(1) v assms(6,7)] .
  then show ?thesis using b(2) L assms(5) pool_inv_fresh [OF assms(1)] by simp
qed

lemma repeat_hit:
  assumes "pool_inv m" "view_chars m (Array b, unat (of_nat (Size - 1) :: 32 word)) = Some cs"
    "find_entry m cs = Some (k, a)" "blocks m a = Some d" "Size \<noteq> 0"
  shows "repeat n (New (Literal (Array b) Size)) (H, m) =
     Some (H + replicate_mset n (SharedString (Heap a)),
       m\<lparr>blocks := (blocks m)(a \<mapsto> d\<lparr>RefCount := RefCount d + of_nat n\<rparr>),
         events := events m @ concat (replicate n [Lock, Inc (Heap a), Unlock])\<rparr>)"
  using assms(1-4)
proof (induction n arbitrary: H m d)
  case 0
  then have "(blocks m)(a \<mapsto> d) = blocks m" by (intro map_upd_triv)
  then show ?case by simp
next
  case (Suc n)
  let ?d1 = "d\<lparr>RefCount := RefCount d + 1\<rparr>"
  let ?m1 = "m\<lparr>blocks := (blocks m)(a \<mapsto> ?d1),
      events := events m @ [Lock, Inc (Heap a), Unlock]\<rparr>"
  have "AddString (Array b) (of_nat (Size - 1)) m = Some (Heap a, ?m1)"
    using AddString_hit [OF Suc.prems(2,3)] Suc.prems(4) by simp
  then have 1: "perform (New (Literal (Array b) Size)) (H, m) =
      Some (add_mset (SharedString (Heap a)) H, ?m1)"
    using assms(5) by (simp add: SharedString_literal_def)
  have p: "pool_inv ?m1" using pool_inv_refcount [OF Suc.prems(1,4)] .
  have v: "view_chars ?m1 (Array b, unat (of_nat (Size - 1) :: 32 word)) = Some cs"
    using Suc.prems(2) by (auto simp: view_chars_Array split: if_splits)
  have "find_entry ?m1 cs = find_entry m cs"
    using Suc.prems(1) by (intro find_entry_cong) (simp_all add: pool_inv_def)
  then have f: "find_entry ?m1 cs = Some (k, a)" using Suc.prems(3) by simp
  have 2: "blocks ?m1 a = Some ?d1" by simp
  have 3: "(blocks ?m1)(a \<mapsto> ?d1\<lparr>RefCount := RefCount ?d1 + of_nat n\<rparr>) =
      (blocks m)(a \<mapsto> d\<lparr>RefCount := RefCount d + of_nat (Suc n)\<rparr>)"
    by (rule ext) (simp add: add.assoc)
  have 4: "events ?m1 @ concat (replicate n [Lock, Inc (Heap a), Unlock]) =
      events m @ concat (replicate (Suc n) [Lock, Inc (Heap a), Unlock])"
    by simp
  show ?case
    by (simp only: repeat.simps 1 Option.bind.simps Suc.IH [OF p v f 2] 3 4) simp
qed

lemma reachable_one_str: "reachable caller_arrays ({#SharedString (Heap 0)#}, one_str)"
proof -
  have "perform (New (Literal (Array 0) 4)) ({#}, start caller_arrays) =
      Some ({#SharedString (Heap 0)#}, one_str)"
    by (simp add: run_defs one_str_def str_block_def)
  from reachable.step [OF reachable.first _ this] show ?thesis by (simp add: room_def)
qed

lemma reachable_after_change:
  "reachable caller_arrays ({#SharedString (Heap 0)#}, caller_writes 1 [120, 0] one_str)"
  by (rule reachable.change [OF reachable_one_str]) (simp add: free_of_keys_def one_str_def)

lemma reachable_two_str:
  "reachable caller_arrays ({#SharedString (Heap 0), SharedString (Heap 0)#}, two_str)"
proof -
  have "perform (New (Literal (Array 1) 4)) ({#SharedString (Heap 0)#}, one_str) =
      Some ({#SharedString (Heap 0), SharedString (Heap 0)#}, two_str)"
    by (simp add: run_defs one_str_def two_str_def str_block_def)
  from reachable.step [OF reachable_one_str _ this] show ?thesis by (simp add: room_def)
qed

lemma Clear_frame:
  assumes "pool_inv m" "Clear this m = Some m1" "p \<noteq> Data this"
  shows "deref m1 p = deref m p"
proof (cases this rule: handle_cases)
  case 1
  then show ?thesis using assms(2) by (simp add: Clear_def GetEmpty_def)
next
  case (2 a)
  then have r: "RemoveString (Heap a) m = Some m1" using assms(2) by (simp add: Clear_def GetEmpty_def)
  then obtain d where d: "blocks m a = Some d"
    by (cases "blocks m a") (simp_all add: RemoveString_def DecRefCount_def)
  obtain m' where all: "RemoveString (Heap a) m = Some m' \<and> pool_inv m' \<and> arrays m' = arrays m \<and>
      brk m' = brk m \<and> (\<forall>x. x \<noteq> a \<longrightarrow> blocks m' x = blocks m x) \<and>
      (if RefCount d = 1
       then blocks m' a = None \<and> find_entry m' (chars d) = None \<and>
            (\<exists>k. find_entry m (chars d) = Some (k, a) \<and> Storage m' = remove1 (k, a) (Storage m)) \<and>
            events m' = events m @ [Dec (Heap a), Lock, Unlock]
       else blocks m' a = Some (d\<lparr>RefCount := RefCount d - 1\<rparr>) \<and> Storage m' = Storage m \<and>
            events m' = events m @ [Dec (Heap a)])"
    using RemoveString_result [OF assms(1) d] by blast
  then have m': "m' = m1" using r by simp
  have "EmptyBuffer m1 = EmptyBuffer m" using all m' assms(1) by (simp add: pool_inv_def)
  moreover have "\<forall>x. x \<noteq> a \<longrightarrow> blocks m1 x = blocks m x" using all m' by simp
  ultimately show ?thesis using assms(3) 2 by (cases p) simp_all
qed

lemma Clear_live:
  assumes "pool_inv m" "live m this"
  shows "\<exists>m1. Clear this m = Some m1 \<and> pool_inv m1"
proof (cases this rule: handle_cases)
  case 1
  then show ?thesis using assms(1) by (simp add: Clear_def GetEmpty_def)
next
  case (2 a)
  then obtain d where d: "blocks m a = Some d" using assms(2) by (auto simp: live_def)
  show ?thesis using RemoveString_result [OF assms(1) d] 2 by (auto simp: Clear_def GetEmpty_def)
qed

section \<open>The static record\<close>











lemma construct_content:
  assumes "from_caller src" "content m src = Some s"
  shows "(s = [] \<and> construct src m = Some (SharedString Static, m)) \<or>
    (\<exists>b. view_chars m (Array b, unat (of_nat (length s) :: 32 word)) =
        Some (take (unat (of_nat (length s) :: 32 word)) s) \<and>
      construct src m = bound (AddString (Array b) (of_nat (length s)) m))"
proof (cases "s = []")
  case False
  then show ?thesis using construct_truncated [OF assms] by blast
next
  case True
  show ?thesis
  proof (cases src)
    case (Raw p)
    then obtain cs Len where cl: "array_at m p = Some cs" "strlen cs = Some Len" "take Len cs = []"
      using assms(2) True by (auto simp: bind_eq_Some_conv)
    have "Len = 0" using cl(3) strlen_Some [OF cl(2)] by (cases "Len = 0") auto
    then show ?thesis using True Raw cl by (simp add: SharedString_cstr_def GetData_def GetEmpty_def)
  next
    case (Owned p n)
    then have "n = 0" using assms(2) True view_chars_length by fastforce
    then show ?thesis using True Owned by (simp add: SharedString_string_def GetEmpty_def)
  next
    case (Literal p n)
    then obtain b where b: "p = Array b" using assms(1) by (cases p) auto
    have n: "n \<noteq> 0" "view_chars m (Array b, n - 1) = Some []"
      using assms(2) Literal b True by (auto split: if_splits)
    then have "n - 1 = 0" using view_chars_length by fastforce
    then show ?thesis using True Literal b n
      by (intro disjI2 exI [of _ b]) (simp add: SharedString_literal_def)
  qed
qed

lemma content_huge:
  "content (start huge) (Owned (Array 0) 4294967296) = Some (replicate 4294967296 120)"
  by (simp add: view_chars_Array start_def huge_def)

lemma construct_total:
  assumes "pool_inv m" "from_caller src" "content m src = Some s"
    "length s mod 4294967296 \<noteq> 4294967295"
  shows "\<exists>h m'. construct src m = Some (h, m')"
proof -
  let ?L = "of_nat (length s) :: 32 word"
  have "unat ?L = length s mod 4294967296" by (simp add: unat_of_nat)
  moreover have "length s mod 4294967296 < 4294967296" by simp
  ultimately have u: "unat ?L < 4294967295" using assms(4) by linarith
  from construct_content [OF assms(2,3)] show ?thesis
  proof (elim disjE conjE exE)
    fix b
    assume v: "view_chars m (Array b, unat ?L) = Some (take (unat ?L) s)"
      and c: "construct src m = bound (AddString (Array b) ?L m)"
    obtain a m' where "AddString (Array b) ?L m = Some (Heap a, m')"
      using AddString_result [OF assms(1) v u] by blast
    then show ?thesis using c by simp
  qed simp
qed

text \<open>
  What \<^verbatim>\<open>main\<close> leaves: \<^verbatim>\<open>str\<close> on the block of \<^verbatim>\<open>"str"\<close>, \<^verbatim>\<open>str1\<close> empty after the
  move, \<^verbatim>\<open>str2\<close> on \<^verbatim>\<open>"12345"\<close>, \<^verbatim>\<open>str3\<close> on \<^verbatim>\<open>"abcd"\<close>, three entries in the table.
\<close>

lemma main_result:
  "do { ((str, str1, str2, str3), m) \<leftarrow> main;
        a \<leftarrow> Str str m; b \<leftarrow> Str str1 m; c \<leftarrow> Str str2 m; d \<leftarrow> Str str3 m;
        Some ((str, str1, str2, str3), [a, b, c, d], Storage m, tally 0 ({#str, str1, str2, str3#}, m)) } =
   Some ((SharedString (Heap 0), SharedString Static, SharedString (Heap 2), SharedString (Heap 1)),
     [[115, 116, 114], [], [49, 50, 51, 52, 53], [97, 98, 99, 100]],
     [((Array 0, 3), 0), ((Array 2, 4), 1), ((Array 3, 5), 2)], (1, Some 1))"
  by (simp add: main_def run_defs tally_def refs_def)

text \<open>
  Lengths are cut to 32 bits: unless the length of the content is \<open>2^32 - 1\<close> modulo
  \<open>2^32\<close>, construction returns a handle on a record whose length field is the length
  modulo \<open>2^32\<close>, and \<^verbatim>\<open>Str()\<close> returns that many elements of the content.
\<close>

lemma construct_length:
  assumes "pool_inv m" and "from_caller src" and "content m src = Some s"
    and "length s mod 4294967296 \<noteq> 4294967295"
  shows "\<exists>h m' d. construct src m = Some (h, m') \<and> deref m' (Data h) = Some d \<and>
      Length d = of_nat (length s) \<and> unat (Length d) = length s mod 4294967296 \<and>
      Str h m' = Some (take (length s mod 4294967296) s)"
proof -
  let ?L = "of_nat (length s) :: 32 word"
  have u: "unat ?L = length s mod 4294967296" by (simp add: unat_of_nat)
  have "length s mod 4294967296 < 4294967296" by simp
  then have ub: "unat ?L < 4294967295" using u assms(4) by linarith
  from construct_content [OF assms(2,3)] show ?thesis
  proof (elim disjE conjE exE)
    assume e: "s = []" "construct src m = Some (SharedString Static, m)"
    have z: "EmptyBuffer m = zero_filled" using assms(1) by (simp add: pool_inv_def)
    have "Str (SharedString Static) m = Some []"
      using z by (simp add: Str_def GetLength_def GetBuffer_def view_chars_def zero_filled_def)
    then show ?thesis using e z
      by (intro exI [of _ "SharedString Static"] exI [of _ m] exI [of _ zero_filled])
        (simp add: zero_filled_def)
  next
    fix b
    assume v: "view_chars m (Array b, unat ?L) = Some (take (unat ?L) s)"
      and c: "construct src m = bound (AddString (Array b) ?L m)"
    obtain a m' d k where r: "AddString (Array b) ?L m = Some (Heap a, m')" "pool_inv m'"
        "blocks m' a = Some d" "chars d = take (unat ?L) s" "Length d = ?L"
      using AddString_result [OF assms(1) v ub] by blast
    have "Str (SharedString (Heap a)) m' = Some (chars d)"
      using Str_block [OF r(3) pool_inv_wf [OF r(2,3)]] .
    then show ?thesis using c r u
      by (intro exI [of _ "SharedString (Heap a)"] exI [of _ m'] exI [of _ d]) simp
  qed
qed

section \<open>Claims\<close>

text \<open>
  C4. Assignment from fixed-size literal content is meant to bind the handle as
  construction from that content does. The code does not: the constructor interns
  \<^verbatim>\<open>Size - 1\<close> elements (line 149), the assignment a view of all \<^verbatim>\<open>Size\<close> elements,
  terminator included (line 215). For \<^verbatim>\<open>char buf[6] = "12345"\<close> at the address 3, a
  handle constructed from \<^verbatim>\<open>buf\<close> reads the five characters, and a handle assigned
  \<^verbatim>\<open>buf\<close> reads six elements, the last one the terminator: two different records.
\<close>

theorem C4_literal_assignment_keeps_terminator:
  "do { (s, m) \<leftarrow> construct (Literal (Array 3) 6) (start caller_arrays); Str s m } =
     Some [49, 50, 51, 52, 53] \<and>
   do { (t, m) \<leftarrow> assign_from SharedString_default (Literal (Array 3) 6) (start caller_arrays);
        Str t m } = Some [49, 50, 51, 52, 53, 0] \<and>
   do { (s, m1) \<leftarrow> construct (Literal (Array 3) 6) (start caller_arrays);
        (t, m2) \<leftarrow> assign_from SharedString_default (Literal (Array 3) 6) m1;
        Some (s, t) } = Some (SharedString (Heap 0), SharedString (Heap 1))"
  by (simp add: run_defs)




text \<open>
  C2 (amended). In every state a client reaches by legal calls and by changing only
  arrays that no key of the table views (so: content is passed in arrays of the caller,
  an array stays as it is while a block made from it lives, and no block is ever
  referenced by \<open>2^32\<close> handles), a block with \<open>k > 0\<close> live handles is live and its
  counter is \<open>k\<close>. Destroying one of the handles returns and leads to such a state
  again; when \<open>k\<close> was 1 the block is freed and its content has left the table, so that
  a later construction from that content allocates a fresh block with counter 1;
  otherwise the block stays with counter \<open>k - 1\<close>.
\<close>

theorem C2_refcount_accounting:
  assumes "reachable arr (H, m)" and "0 < refs H a"
  shows "\<exists>d m'. blocks m a = Some d \<and> unat (RefCount d) = refs H a \<and>
      perform (Delete (SharedString (Heap a))) (H, m) = Some (H - {#SharedString (Heap a)#}, m') \<and>
      reachable arr (H - {#SharedString (Heap a)#}, m') \<and>
      (if refs H a = 1
       then blocks m' a = None \<and> find_entry m' (chars d) = None \<and>
            (\<forall>src. from_caller src \<and> content m' src = Some (chars d) \<and> chars d \<noteq> [] \<longrightarrow>
               blocks m' (brk m') = None \<and>
               (\<exists>m''. construct src m' = Some (SharedString (Heap (brk m')), m'') \<and>
                  blocks m'' (brk m') = Some \<lparr>RefCount = 1, Length = Length d, Buffer = Buffer d\<rparr>))
       else blocks m' a = Some (d\<lparr>RefCount := RefCount d - 1\<rparr>) \<and>
            unat (RefCount d - 1) = refs H a - 1)"
proof -
  let ?h = "SharedString (Heap a)"
  have w: "world_inv H m" using reachable_inv [OF assms(1)] by simp
  have p: "pool_inv m" using world_inv_pool [OF w] .
  have h: "?h \<in># H" using assms(2) by (simp add: refs_def)
  obtain d where d: "blocks m a = Some d" using world_inv_live [OF w h] by blast
  have cnt: "unat (RefCount d) = refs H a" using world_inv_block [OF w d] by simp
  have wf: "Buffer d = chars d @ [0]" using pool_inv_wf [OF p d] .
  obtain m' where all: "RemoveString (Heap a) m = Some m' \<and> pool_inv m' \<and> arrays m' = arrays m \<and>
      brk m' = brk m \<and> (\<forall>x. x \<noteq> a \<longrightarrow> blocks m' x = blocks m x) \<and>
      (if RefCount d = 1
       then blocks m' a = None \<and> find_entry m' (chars d) = None \<and>
            (\<exists>k. find_entry m (chars d) = Some (k, a) \<and> Storage m' = remove1 (k, a) (Storage m)) \<and>
            events m' = events m @ [Dec (Heap a), Lock, Unlock]
       else blocks m' a = Some (d\<lparr>RefCount := RefCount d - 1\<rparr>) \<and> Storage m' = Storage m \<and>
            events m' = events m @ [Dec (Heap a)])"
    using RemoveString_result [OF p d] by blast
  then have r: "RemoveString (Heap a) m = Some m'" and p': "pool_inv m'" by simp_all
  have del: "perform (Delete ?h) (H, m) = Some (H - {#?h#}, m')"
    using r by (simp add: destroy_def Clear_def GetEmpty_def)
  have re: "reachable arr (H - {#?h#}, m')"
    using reachable.step [OF assms(1) _ del] h by simp
  have one: "RefCount d = 1 \<longleftrightarrow> refs H a = 1"
    using cnt by (metis unat_1 word_unat_eq_iff)
  have last: "if refs H a = 1
       then blocks m' a = None \<and> find_entry m' (chars d) = None \<and>
            (\<forall>src. from_caller src \<and> content m' src = Some (chars d) \<and> chars d \<noteq> [] \<longrightarrow>
               blocks m' (brk m') = None \<and>
               (\<exists>m''. construct src m' = Some (SharedString (Heap (brk m')), m'') \<and>
                  blocks m'' (brk m') = Some \<lparr>RefCount = 1, Length = Length d, Buffer = Buffer d\<rparr>))
       else blocks m' a = Some (d\<lparr>RefCount := RefCount d - 1\<rparr>) \<and>
            unat (RefCount d - 1) = refs H a - 1"
  proof (cases "refs H a = 1")
    case True
    then have f: "blocks m' a = None" "find_entry m' (chars d) = None" using all one by simp_all
    have fr: "\<forall>src. from_caller src \<and> content m' src = Some (chars d) \<and> chars d \<noteq> [] \<longrightarrow>
               blocks m' (brk m') = None \<and>
               (\<exists>m''. construct src m' = Some (SharedString (Heap (brk m')), m'') \<and>
                  blocks m'' (brk m') = Some \<lparr>RefCount = 1, Length = Length d, Buffer = Buffer d\<rparr>)"
      using construct_fresh [OF p' _ _ _ wf f(2) pool_inv_len [OF p d]] by blast
    show ?thesis by (subst if_P [OF True]) (intro conjI f fr)
  next
    case False
    then have "blocks m' a = Some (d\<lparr>RefCount := RefCount d - 1\<rparr>)" using all one by simp
    moreover have "unat (RefCount d - 1) = refs H a - 1"
      using cnt assms(2) by (simp add: unat_dec)
    ultimately show ?thesis using False by simp
  qed
  show ?thesis by (intro exI [of _ d] exI [of _ m'] conjI d cnt del re last)
qed

theorem C2_refcount_accounting_witness:
  "reachable caller_arrays ({#SharedString (Heap 0), SharedString (Heap 0)#}, two_str) \<and>
   0 < refs {#SharedString (Heap 0), SharedString (Heap 0)#} 0 \<and>
   (\<exists>d m'. blocks two_str 0 = Some d \<and>
      unat (RefCount d) = refs {#SharedString (Heap 0), SharedString (Heap 0)#} 0 \<and>
      perform (Delete (SharedString (Heap 0)))
        ({#SharedString (Heap 0), SharedString (Heap 0)#}, two_str) =
        Some ({#SharedString (Heap 0), SharedString (Heap 0)#} - {#SharedString (Heap 0)#}, m') \<and>
      reachable caller_arrays
        ({#SharedString (Heap 0), SharedString (Heap 0)#} - {#SharedString (Heap 0)#}, m') \<and>
      (if refs {#SharedString (Heap 0), SharedString (Heap 0)#} 0 = 1
       then blocks m' 0 = None \<and> find_entry m' (chars d) = None \<and>
            (\<forall>src. from_caller src \<and> content m' src = Some (chars d) \<and> chars d \<noteq> [] \<longrightarrow>
               blocks m' (brk m') = None \<and>
               (\<exists>m''. construct src m' = Some (SharedString (Heap (brk m')), m'') \<and>
                  blocks m'' (brk m') = Some \<lparr>RefCount = 1, Length = Length d, Buffer = Buffer d\<rparr>))
       else blocks m' 0 = Some (d\<lparr>RefCount := RefCount d - 1\<rparr>) \<and>
            unat (RefCount d - 1) = refs {#SharedString (Heap 0), SharedString (Heap 0)#} 0 - 1))"
proof -
  have 1: "0 < refs {#SharedString (Heap 0), SharedString (Heap 0)#} 0" by (simp add: refs_def)
  show ?thesis
    by (intro conjI reachable_two_str 1 C2_refcount_accounting [OF reachable_two_str 1])
qed

text \<open>
  C2, as stated, fails: the counter is a \<^verbatim>\<open>uint32_t\<close>. A client that constructs a
  handle from \<^verbatim>\<open>"str"\<close> and then 4294967295 more from the same content holds \<open>2^32\<close>
  live handles on the block, and the counter of the block is 0.
\<close>

theorem C2_refcount_wraps:
  "map_option (tally 0)
     (repeat 4294967295 (New (Literal (Array 1) 4)) ({#SharedString (Heap 0)#}, one_str)) =
   Some (4294967296, Some 0)"
proof -
  have 1: "view_chars one_str (Array 1, unat (of_nat (4 - 1) :: 32 word)) = Some [115, 116, 114]"
    by (simp add: view_chars_Array one_str_def caller_arrays_def)
  have 2: "find_entry one_str [115, 116, 114] = Some ((Array 0, 3), 0)"
    by (simp add: find_entry_def view_chars_Array one_str_def caller_arrays_def)
  have 3: "blocks one_str 0 = Some (str_block 1)" by (simp add: one_str_def)
  from repeat_hit [OF pool_inv_one_str 1 2 3, of 4294967295 "{#SharedString (Heap 0)#}"]
  show ?thesis by (simp add: tally_def refs_def str_block_def)
qed

text \<open>
  C8. \<^verbatim>\<open>RemoveString\<close> on a live block first decrements the counter, before \<^verbatim>\<open>Mutex\<close>
  is taken. When the result is not 0 nothing else happens: the table and every other
  block are as before and the mutex was not touched. When the result is 0 it then takes
  the mutex, finds the entry whose key reads the characters of the block, which is the
  entry that owns the block, erases it, which frees the block, and leaves the mutex.
\<close>

theorem C8_release:
  "(blocks m a = Some d \<and> RefCount d - 1 \<noteq> 0 \<longrightarrow>
      RemoveString (Heap a) m =
        Some (m\<lparr>blocks := (blocks m)(a \<mapsto> d\<lparr>RefCount := RefCount d - 1\<rparr>),
                events := events m @ [Dec (Heap a)]\<rparr>)) \<and>
   (pool_inv m \<and> blocks m a = Some d \<and> RefCount d - 1 = 0 \<longrightarrow>
      (\<exists>k. find_entry m (chars d) = Some (k, a) \<and>
         RemoveString (Heap a) m =
           Some (m\<lparr>Storage := remove1 (k, a) (Storage m), blocks := (blocks m)(a := None),
                   events := events m @ [Dec (Heap a), Lock, Unlock]\<rparr>)))"
proof (intro conjI impI)
  assume "blocks m a = Some d \<and> RefCount d - 1 \<noteq> 0"
  then show "RemoveString (Heap a) m =
        Some (m\<lparr>blocks := (blocks m)(a \<mapsto> d\<lparr>RefCount := RefCount d - 1\<rparr>),
                events := events m @ [Dec (Heap a)]\<rparr>)"
    using RemoveString_keep [of m a d] by auto
next
  assume h: "pool_inv m \<and> blocks m a = Some d \<and> RefCount d - 1 = 0"
  then have one: "RefCount d = 1" by simp
  obtain k where k: "find_entry m (chars d) = Some (k, a)" using pool_inv_find h by blast
  have "RemoveString (Heap a) m =
           Some (m\<lparr>Storage := remove1 (k, a) (Storage m), blocks := (blocks m)(snd (k, a) := None),
                   events := events m @ [Dec (Heap a), Lock, Unlock]\<rparr>)"
    using RemoveString_last [OF _ _ one k] h by blast
  then show "\<exists>k. find_entry m (chars d) = Some (k, a) \<and>
         RemoveString (Heap a) m =
           Some (m\<lparr>Storage := remove1 (k, a) (Storage m), blocks := (blocks m)(a := None),
                   events := events m @ [Dec (Heap a), Lock, Unlock]\<rparr>)"
    using k by auto
qed

theorem C8_release_witness:
  "blocks two_str 0 = Some (str_block 2) \<and> str_block 2 = \<lparr>RefCount = 2, Length = 3, Buffer = [115, 116, 114, 0]\<rparr> \<and>
   RemoveString (Heap 0) two_str =
     Some (two_str\<lparr>blocks := (blocks two_str)(0 \<mapsto> str_block 1),
             events := events two_str @ [Dec (Heap 0)]\<rparr>) \<and>
   pool_inv one_str \<and> blocks one_str 0 = Some (str_block 1) \<and>
   RemoveString (Heap 0) one_str =
     Some (one_str\<lparr>Storage := [], blocks := Map.empty,
             events := events one_str @ [Dec (Heap 0), Lock, Unlock]\<rparr>)"
proof -
  have 1: "blocks two_str 0 = Some (str_block 2)" by (simp add: two_str_def)
  have 2: "blocks one_str 0 = Some (str_block 1)" by (simp add: one_str_def)
  have 3: "RefCount (str_block 2) - 1 \<noteq> 0" "RefCount (str_block 1) - 1 = 0"
    by (simp_all add: str_block_def)
  have a: "RemoveString (Heap 0) two_str =
     Some (two_str\<lparr>blocks := (blocks two_str)(0 \<mapsto> str_block 1),
             events := events two_str @ [Dec (Heap 0)]\<rparr>)"
    using C8_release [of two_str 0 "str_block 2"] 1 3 by (simp add: str_block_def)
  obtain k where k: "find_entry one_str (chars (str_block 1)) = Some (k, 0)"
     "RemoveString (Heap 0) one_str =
           Some (one_str\<lparr>Storage := remove1 (k, 0) (Storage one_str), blocks := (blocks one_str)(0 := None),
                   events := events one_str @ [Dec (Heap 0), Lock, Unlock]\<rparr>)"
    using C8_release [of one_str 0 "str_block 1"] pool_inv_one_str 2 3 by blast
  have "k = (Array 0, 3)" using find_entry_Some [OF k(1)] by (simp add: one_str_def)
  then have b: "RemoveString (Heap 0) one_str =
     Some (one_str\<lparr>Storage := [], blocks := Map.empty,
             events := events one_str @ [Dec (Heap 0), Lock, Unlock]\<rparr>)"
    using k(2) by (simp add: one_str_def)
  show ?thesis using 1 2 a b pool_inv_one_str by (simp add: str_block_def)
qed

text \<open>
  C3 (amended). Move construction takes the pointer of its argument and leaves the
  argument equal to a default-constructed handle; it does not touch the memory. Move
  assignment between handles that hold different pointers releases what the target
  holds, takes the pointer of its argument and leaves the argument equal to a
  default-constructed handle; the record the argument held is as before. Move assignment
  between handles that hold the same pointer changes nothing: the argument stays bound.
\<close>

theorem C3_move:
  "SharedString_move src = (SharedString (Data src), SharedString_default) \<and>
   (Data src = Data this \<longrightarrow> assign_move this src m = Some (this, src, m)) \<and>
   (pool_inv m \<and> live m this \<and> Data src \<noteq> Data this \<longrightarrow>
      (\<exists>m1. Clear this m = Some m1 \<and>
         assign_move this src m = Some (SharedString (Data src), SharedString_default, m1) \<and>
         deref m1 (Data src) = deref m (Data src)))"
proof (intro conjI impI)
  show "SharedString_move src = (SharedString (Data src), SharedString_default)"
    by (simp add: SharedString_move_def SharedString_default_def)
next
  assume "Data src = Data this"
  then show "assign_move this src m = Some (this, src, m)" by (simp add: assign_move_def)
next
  assume h: "pool_inv m \<and> live m this \<and> Data src \<noteq> Data this"
  then obtain m1 where m1: "Clear this m = Some m1" using Clear_live by blast
  have "deref m1 (Data src) = deref m (Data src)" using Clear_frame [OF _ m1] h by blast
  then show "\<exists>m1. Clear this m = Some m1 \<and>
         assign_move this src m = Some (SharedString (Data src), SharedString_default, m1) \<and>
         deref m1 (Data src) = deref m (Data src)"
    using m1 h by (simp add: assign_move_def SharedString_default_def)
qed

theorem C3_move_witness:
  "SharedString_move (SharedString (Heap 0)) = (SharedString (Heap 0), SharedString Static) \<and>
   assign_move (SharedString (Heap 0)) (SharedString (Heap 0)) two_str =
     Some (SharedString (Heap 0), SharedString (Heap 0), two_str) \<and>
   pool_inv one_str \<and> live one_str (SharedString Static) \<and>
   assign_move (SharedString Static) (SharedString (Heap 0)) one_str =
     Some (SharedString (Heap 0), SharedString Static, one_str) \<and>
   deref one_str (Heap 0) = Some (str_block 1)"
proof -
  note a = C3_move [of "SharedString (Heap 0)" "SharedString (Heap 0)" two_str]
  note b = C3_move [of "SharedString (Heap 0)" "SharedString Static" one_str]
  have l: "live one_str (SharedString Static)" by (simp add: live_def)
  show ?thesis using a b l pool_inv_one_str
    by (simp add: SharedString_default_def GetEmpty_def Clear_def) (simp add: one_str_def)
qed

text \<open>
  C3, as stated, fails for two handles on the same block (line 182 guards on the
  pointers being different): after \<^verbatim>\<open>a = "str"; b = "str"; b = std::move(a)\<close> the handle
  \<^verbatim>\<open>a\<close> is still bound to the block.
\<close>

theorem C3_move_between_sharers:
  "do { (a, m1) \<leftarrow> SharedString_cstr (Array 0) (start caller_arrays);
        (b, m2) \<leftarrow> SharedString_cstr (Array 1) m1;
        (b', a', m3) \<leftarrow> assign_move b a m2;
        Some (Data a', Data b') } = Some (Heap 0, Heap 0)"
  by (simp add: run_defs)

text \<open>
  C9. Copy construction and copy assignment are meant to increment the counter of the
  block of their argument. The code cannot: both go through \<^verbatim>\<open>CopyRef\<close>, whose call
  \<^verbatim>\<open>Data->IncRefCounter()\<close> names a member that does not exist. Copying a handle bound
  to a block, by construction or by assignment to an empty handle, has no behaviour in
  any memory; so it is after \<^verbatim>\<open>SharedString<char> a("str"); SharedString<char> b(a)\<close>.
  What does not reach \<^verbatim>\<open>CopyRef\<close> is as intended: a copy of an empty handle is bound to
  the static record and leaves the memory as it is, and copy assignment between handles
  that hold the same pointer changes nothing.
\<close>

theorem C9_copy_of_bound_handle:
  "SharedString_copy (SharedString (Heap a)) m = None \<and>
   assign_copy SharedString_default (SharedString (Heap a)) m = None \<and>
   SharedString_copy SharedString_default m = Some (SharedString_default, m) \<and>
   assign_copy this (SharedString (Data this)) m = Some (this, m)"
  by (simp add: SharedString_copy_def assign_copy_def SharedString_default_def GetEmpty_def
      CopyRef_def IncRefCounter_def bound_def Clear_def)

text \<open>
  C5. The key that \<^verbatim>\<open>AddString\<close> stores with a new block is \<^verbatim>\<open>StringView\<close>, the view
  over its argument \<^verbatim>\<open>Str\<close> (lines 233 and 247), not a view over the array of the new
  block: after \<^verbatim>\<open>SharedString<char> s(str)\<close> for a \<^verbatim>\<open>std::string str = "str"\<close> whose
  buffer is the array 0, the key is \<open>(Array 0, 3)\<close>. When the caller then stores
  \<^verbatim>\<open>'x'\<close> in \<^verbatim>\<open>str[0]\<close>, the key reads \<^verbatim>\<open>"xtr"\<close> while the block still holds
  \<^verbatim>\<open>"str"\<close>. From then on the table does not find the block under its content: a
  handle constructed from \<^verbatim>\<open>"str"\<close> gets a second block with the same characters, and
  destroying \<^verbatim>\<open>s\<close> erases \<^verbatim>\<open>end()\<close>.
\<close>

theorem C5_key_is_view_of_argument:
  "do { (s, m1) \<leftarrow> SharedString_string (Array 0) 3 (start caller_arrays);
        Some (s, Storage m1) } = Some (SharedString (Heap 0), [((Array 0, 3), 0)]) \<and>
   do { (s, m1) \<leftarrow> SharedString_string (Array 0) 3 (start caller_arrays);
        m2 \<leftarrow> Some (caller_writes 0 [120, 116, 114, 0] m1);
        key \<leftarrow> view_chars m2 (Array 0, 3);
        payload \<leftarrow> Str s m2;
        Some (key, payload) } = Some ([120, 116, 114], [115, 116, 114]) \<and>
   do { (s, m1) \<leftarrow> SharedString_string (Array 0) 3 (start caller_arrays);
        m2 \<leftarrow> Some (caller_writes 0 [120, 116, 114, 0] m1);
        (t, m3) \<leftarrow> SharedString_cstr (Array 1) m2;
        a \<leftarrow> Str s m3;
        b \<leftarrow> Str t m3;
        Some (s, t, a, b) } =
     Some (SharedString (Heap 0), SharedString (Heap 1), [115, 116, 114], [115, 116, 114]) \<and>
   do { (s, m1) \<leftarrow> SharedString_string (Array 0) 3 (start caller_arrays);
        m2 \<leftarrow> Some (caller_writes 0 [120, 116, 114, 0] m1);
        destroy s m2 } = None"
  by (simp add: run_defs caller_writes_def)




text \<open>
  C7 (amended). For non-empty content \<open>s\<close> of fewer than \<open>2^32 - 1\<close> elements in an array
  of the caller, construction returns a handle on a block whose length field is the
  length of \<open>s\<close> and whose array is \<open>s\<close> followed by one terminator; when the content
  was not in the table the block is new, with counter 1. \<^verbatim>\<open>Str()\<close> on the handle
  returns \<open>s\<close>.
\<close>

theorem C7_round_trip:
  assumes "pool_inv m" and "from_caller src" and "content m src = Some s" and "s \<noteq> []"
    and "length s < 4294967295"
  shows "\<exists>a m' d. construct src m = Some (SharedString (Heap a), m') \<and>
      blocks m' a = Some d \<and> unat (Length d) = length s \<and> Buffer d = s @ [0] \<and>
      (find_entry m s = None \<longrightarrow>
         blocks m a = None \<and> d = \<lparr>RefCount = 1, Length = of_nat (length s), Buffer = s @ [0]\<rparr>) \<and>
      Str (SharedString (Heap a)) m' = Some s"
proof -
  let ?L = "of_nat (length s) :: 32 word"
  have u: "unat ?L = length s" using assms(5) by (simp add: unat_of_nat)
  have ub: "unat ?L < 4294967295" using u assms(5) by simp
  obtain b where b: "view_chars m (Array b, unat ?L) = Some (take (unat ?L) s)"
      "construct src m = bound (AddString (Array b) ?L m)"
    using construct_truncated [OF assms(2,3,4)] by blast
  have v: "view_chars m (Array b, unat ?L) = Some s" using b(1) u by simp
  obtain a m' d k where r: "AddString (Array b) ?L m = Some (Heap a, m')" "pool_inv m'"
      "blocks m' a = Some d" "chars d = s" "Length d = ?L"
    and c: "case find_entry m s of
         Some e \<Rightarrow> snd e = a \<and> brk m' = brk m \<and> Storage m' = Storage m \<and>
           (\<exists>d0. blocks m a = Some d0 \<and> d = d0\<lparr>RefCount := RefCount d0 + 1\<rparr>) \<and>
           events m' = events m @ [Lock, Inc (Heap a), Unlock]
       | None \<Rightarrow> a = brk m \<and> blocks m a = None \<and> brk m' = Suc (brk m) \<and>
           Storage m' = Storage m @ [((Array b, unat ?L), a)] \<and>
           d = \<lparr>RefCount = 1, Length = ?L, Buffer = s @ [0]\<rparr> \<and>
           events m' = events m @ [Lock, Unlock]"
    using AddString_result [OF assms(1) v ub] by blast
  have wf: "Buffer d = chars d @ [0]" using pool_inv_wf [OF r(2,3)] .
  have 1: "construct src m = Some (SharedString (Heap a), m')" using b(2) r(1) by simp
  have 2: "unat (Length d) = length s" using r(5) u by simp
  have 3: "Buffer d = s @ [0]" using wf r(4) by simp
  have 4: "find_entry m s = None \<longrightarrow>
         blocks m a = None \<and> d = \<lparr>RefCount = 1, Length = of_nat (length s), Buffer = s @ [0]\<rparr>"
  proof
    assume n: "find_entry m s = None"
    show "blocks m a = None \<and> d = \<lparr>RefCount = 1, Length = of_nat (length s), Buffer = s @ [0]\<rparr>"
      using c unfolding n by auto
  qed
  have 5: "Str (SharedString (Heap a)) m' = Some s" using Str_block [OF r(3) wf] r(4) by simp
  show ?thesis by (intro exI [of _ a] exI [of _ m'] exI [of _ d] conjI 1 r(3) 2 3 4 5)
qed

theorem C7_round_trip_witness:
  "pool_inv one_str \<and> from_caller (Literal (Array 2) 5) \<and>
   content one_str (Literal (Array 2) 5) = Some [97, 98, 99, 100] \<and>
   length [97 :: 8 word, 98, 99, 100] < 4294967295 \<and>
   (\<exists>a m' d. construct (Literal (Array 2) 5) one_str = Some (SharedString (Heap a), m') \<and>
      blocks m' a = Some d \<and> unat (Length d) = length [97 :: 8 word, 98, 99, 100] \<and>
      Buffer d = [97, 98, 99, 100] @ [0] \<and>
      (find_entry one_str [97, 98, 99, 100] = None \<longrightarrow>
         blocks one_str a = None \<and>
         d = \<lparr>RefCount = 1, Length = of_nat (length [97 :: 8 word, 98, 99, 100]),
               Buffer = [97, 98, 99, 100] @ [0]\<rparr>) \<and>
      Str (SharedString (Heap a)) m' = Some [97, 98, 99, 100])"
proof -
  have 1: "from_caller (Literal (Array 2) 5)" by simp
  have 2: "content one_str (Literal (Array 2) 5) = Some [97, 98, 99, 100]"
    by (simp add: view_chars_Array one_str_def caller_arrays_def)
  have 3: "[97 :: 8 word, 98, 99, 100] \<noteq> []" by simp
  have 4: "length [97 :: 8 word, 98, 99, 100] < 4294967295" by simp
  show ?thesis
    by (intro conjI pool_inv_one_str 1 2 4 C7_round_trip [OF pool_inv_one_str 1 2 3 4])
qed

text \<open>
  C7, as stated, fails for long content: the length is converted to \<^verbatim>\<open>uint32_t\<close>
  (lines 112, 129, 149). A handle constructed from a \<^verbatim>\<open>std::string\<close> of \<open>2^32\<close>
  characters is bound to a block of length 0, and \<^verbatim>\<open>Str()\<close> returns the empty string.
\<close>

theorem C7_long_content_is_cut:
  "content (start huge) (Owned (Array 0) 4294967296) = Some (replicate 4294967296 120) \<and>
   do { (h, m) \<leftarrow> construct (Owned (Array 0) 4294967296) (start huge); Str h m } = Some []"
proof -
  have "do { (h, m) \<leftarrow> construct (Owned (Array 0) 4294967296) (start huge); Str h m } = Some []"
    by (simp add: SharedString_string_def AddString_def view_chars_def find_entry_def
        emplace_def new_SharedData_def GetBuffer_def GetLength_def Str_def start_def emit_def)
  then show ?thesis using content_huge by simp
qed

text \<open>
  C10. The length of the content is meant to be cut to 32 bits and the content recorded
  with that length, whatever the length is. For a \<^verbatim>\<open>std::string\<close> of \<open>2^32 - 1\<close>
  characters the code does not record anything: the length fits 32 bits, but
  \<^verbatim>\<open>Length + 1\<close> in line 244 is computed in \<^verbatim>\<open>uint32_t\<close> and is 0, so the block has
  room for no element and the constructor stores \<open>2^32\<close> elements past its end. For
  every other length modulo \<open>2^32\<close> the claim holds (\<open>construct_length\<close>).
\<close>

theorem C10_block_without_room:
  "content (start nearly_huge) (Owned (Array 0) 4294967295) = Some (replicate 4294967295 120) \<and>
   construct (Owned (Array 0) 4294967295) (start nearly_huge) = None"
  by (simp add: SharedString_string_def AddString_def new_SharedData_def view_chars_def
      find_entry_def start_def emit_def bound_def nearly_huge_def)

end
